theory Spec2Isabelle
  imports Complex_Main "HOL-Library.Log_Nat"
begin

section \<open>JavaScript numbers and dates\<close>

text \<open>
  A JavaScript number is an IEEE 754 double. A finite double is modelled by the rational
  number it denotes; the two zeros are one value, which none of the operations used by
  the library can tell apart. \<open>to_double x\<close> is the double nearest to the rational \<open>x\<close>,
  ties going to the even significand: with \<open>2^k \<le> |x| < 2^(k+1)\<close> the doubles around
  \<open>x\<close> are the multiples of \<open>2^e\<close>, \<open>e = max (k - 52) (-1074)\<close>, and a result of
  \<open>2^1024\<close> or more is an infinity.
\<close>

datatype number = Num rat | PosInf | NegInf | NaN

definition ilog2 :: "rat \<Rightarrow> int" where
  "ilog2 x = (let (p, q) = quotient_of x; d = bitlen p - bitlen q
              in if 2 powi d \<le> x then d else d - 1)"

definition round_half_even :: "rat \<Rightarrow> int" where
  "round_half_even x =
     (let f = \<lfloor>x\<rfloor>; r = x - of_int f
      in if r < 1 / 2 then f else if 1 / 2 < r then f + 1 else if even f then f else f + 1)"

definition to_double :: "rat \<Rightarrow> number" where
  "to_double x =
     (if x = 0 then Num 0
      else let e = max (ilog2 \<bar>x\<bar> - 52) (- 1074);
               y = of_int (round_half_even (\<bar>x\<bar> / 2 powi e)) * 2 powi e
           in if 2 ^ 1024 \<le> y then (if 0 < x then PosInf else NegInf)
              else Num (if 0 < x then y else - y))"

text \<open>
  \<open>Math.max\<close> of two numbers, and the operators \<open>*\<close> and \<open>+\<close> on numbers: the exact
  result, rounded.
\<close>

definition num_max :: "number \<Rightarrow> number \<Rightarrow> number" where
  "num_max a b =
     (case a of
        NaN \<Rightarrow> NaN
      | PosInf \<Rightarrow> (case b of NaN \<Rightarrow> NaN | _ \<Rightarrow> PosInf)
      | NegInf \<Rightarrow> b
      | Num x \<Rightarrow>
          (case b of NaN \<Rightarrow> NaN | PosInf \<Rightarrow> PosInf | NegInf \<Rightarrow> Num x | Num y \<Rightarrow> Num (max x y)))"

definition num_neg :: "number \<Rightarrow> number" where
  "num_neg a = (case a of Num x \<Rightarrow> Num (- x) | PosInf \<Rightarrow> NegInf | NegInf \<Rightarrow> PosInf | NaN \<Rightarrow> NaN)"

definition inf_times :: "number \<Rightarrow> rat \<Rightarrow> number" where
  "inf_times i x = (if x = 0 then NaN else if 0 < x then i else num_neg i)"

definition num_mult :: "number \<Rightarrow> number \<Rightarrow> number" where
  "num_mult a b =
     (case a of
        NaN \<Rightarrow> NaN
      | Num x \<Rightarrow> (case b of NaN \<Rightarrow> NaN | Num y \<Rightarrow> to_double (x * y) | _ \<Rightarrow> inf_times b x)
      | _ \<Rightarrow>
          (case b of
             NaN \<Rightarrow> NaN
           | Num y \<Rightarrow> inf_times a y
           | _ \<Rightarrow> if a = b then PosInf else NegInf))"

definition num_add :: "number \<Rightarrow> number \<Rightarrow> number" where
  "num_add a b =
     (case a of
        NaN \<Rightarrow> NaN
      | Num x \<Rightarrow> (case b of Num y \<Rightarrow> to_double (x + y) | _ \<Rightarrow> b)
      | _ \<Rightarrow> (case b of NaN \<Rightarrow> NaN | Num y \<Rightarrow> a | _ \<Rightarrow> if a = b then a else NaN))"

text \<open>
  A \<open>Date\<close> holds a time value, a whole number of milliseconds since the epoch of at
  most \<open>8.64e15\<close> in magnitude, or is invalid. \<open>new Date(v)\<close> clips the number \<open>v\<close>:
  anything that is not finite or lies beyond the range gives an invalid date, and a
  fraction of a millisecond is cut off. \<open>getTime\<close> of an invalid date is NaN.
\<close>

datatype date = DateAt int | InvalidDate

definition new_Date :: "number \<Rightarrow> date" where
  "new_Date v =
     (case v of
        Num x \<Rightarrow>
          if \<bar>x\<bar> \<le> 8640000000000000 then DateAt (if 0 \<le> x then \<lfloor>x\<rfloor> else \<lceil>x\<rceil>)
          else InvalidDate
      | _ \<Rightarrow> InvalidDate)"

definition getTime :: "date \<Rightarrow> number" where
  "getTime d = (case d of DateAt t \<Rightarrow> Num (of_int t) | InvalidDate \<Rightarrow> NaN)"

section \<open>JavaScript values and strings\<close>

text \<open>
  The values a header lookup such as \<open>res.headers['cache-control']\<close> can yield; only
  whether the value is a string matters to the library. Strings are character lists.
\<close>

datatype jsval = JUndefined | JNull | JBool bool | JNum int | JStr string

fun starts_with :: "string \<Rightarrow> string \<Rightarrow> bool" where
  "starts_with s p = (take (length p) s = p)"

text \<open>\<open>String.prototype.indexOf\<close>: the first index at which \<open>sub\<close> occurs, or \<open>-1\<close>.\<close>

fun indexOf_from :: "string \<Rightarrow> string \<Rightarrow> int \<Rightarrow> int" where
  "indexOf_from [] sub i = (if sub = [] then i else -1)"
| "indexOf_from (c # cs) sub i =
     (if starts_with (c # cs) sub then i else indexOf_from cs sub (i + 1))"

definition indexOf :: "string \<Rightarrow> string \<Rightarrow> int" where
  "indexOf s sub = indexOf_from s sub 0"

definition is_digit :: "char \<Rightarrow> bool" where
  "is_digit c = (c \<in> set ''0123456789'')"

definition digit_val :: "char \<Rightarrow> int" where
  "digit_val c = int (of_char c) - 48"

text \<open>
  \<open>parseInt(ds, 10)\<close> on a string of decimal digits: the number nearest to the integer
  that the digits denote.
\<close>

definition parseInt10 :: "string \<Rightarrow> number" where
  "parseInt10 ds = to_double (of_int (foldl (\<lambda>n c. 10 * n + digit_val c) 0 ds))"

text \<open>
  \<open>s.match(/key([0-9]+)/)\<close> for a literal \<open>key\<close>: the capture group of the leftmost
  match (the longest run of digits after the leftmost occurrence of \<open>key\<close> that is
  followed by a digit), or \<open>None\<close> for \<open>null\<close>.
\<close>

fun match_digits :: "string \<Rightarrow> string \<Rightarrow> string option" where
  "match_digits key [] = None"
| "match_digits key (c # cs) =
     (let ds = takeWhile is_digit (drop (length key) (c # cs))
      in if starts_with (c # cs) key \<and> ds \<noteq> [] then Some ds
         else match_digits key cs)"

section \<open>The TTL parser\<close>

definition ttlFromCacheControlHeader :: "jsval \<Rightarrow> number" where
  "ttlFromCacheControlHeader cacheControlHeader =
     (case cacheControlHeader of
        JStr s \<Rightarrow>
          if indexOf s ''no-cache'' = -1 \<and> indexOf s ''private'' = -1 then
            (case match_digits ''s-maxage='' s of
               Some smaxage \<Rightarrow> parseInt10 smaxage
             | None \<Rightarrow>
                 (case match_digits ''max-age='' s of
                    Some maxage \<Rightarrow> parseInt10 maxage
                  | None \<Rightarrow> Num 0))
          else Num 0
      | _ \<Rightarrow> Num 0)"

section \<open>The file locker\<close>

record 'p lock_entry =
  lastUpdated :: int
  onRelease :: "'p list"

type_synonym ('k, 'p) lock_table = "'k \<rightharpoonup> 'p lock_entry"

text \<open>
  \<open>FileLocker.prototype.lock\<close> and \<open>unlock\<close>. Both end by calling at most one
  \<open>proceed\<close> callback, after the table has been updated: the functions return the new
  table and the callback to be called. \<open>now\<close> is \<open>Date.now()\<close>.
\<close>

definition lock :: "int \<Rightarrow> 'k \<Rightarrow> 'p \<Rightarrow> ('k, 'p) lock_table \<Rightarrow> ('k, 'p) lock_table \<times> 'p option" where
  "lock now file proceed lockedFiles =
     (case lockedFiles file of
        Some e \<Rightarrow> (lockedFiles(file \<mapsto> e\<lparr>onRelease := onRelease e @ [proceed]\<rparr>), None)
      | None \<Rightarrow> (lockedFiles(file \<mapsto> \<lparr>lastUpdated = now, onRelease = []\<rparr>), Some proceed))"

definition unlock :: "int \<Rightarrow> 'k \<Rightarrow> ('k, 'p) lock_table \<Rightarrow> ('k, 'p) lock_table \<times> 'p option" where
  "unlock now file lockedFiles =
     (case lockedFiles file of
        Some e \<Rightarrow>
          (case onRelease e of
             p # ps \<Rightarrow> (lockedFiles(file \<mapsto> \<lparr>lastUpdated = now, onRelease = ps\<rparr>), Some p)
           | [] \<Rightarrow> (lockedFiles(file := None), None))
      | None \<Rightarrow> (lockedFiles, None))"

section \<open>Specification vocabulary for the TTL parser\<close>

text \<open>
  Declarative counterparts of the string operations, used to state what the parser
  computes: \<open>contains s sub\<close> says that \<open>sub\<close> occurs in \<open>s\<close>; \<open>matches_at key s i\<close>
  says that the pattern \<open>key[0-9]+\<close> matches at index \<open>i\<close>; \<open>first_match\<close> picks the
  leftmost such index; \<open>digits_at\<close> is the captured group; \<open>decimal_value\<close> is the
  number a digit string denotes.
\<close>

definition contains :: "string \<Rightarrow> string \<Rightarrow> bool" where
  "contains s sub = (\<exists>i\<in>{..length s}. take (length sub) (drop i s) = sub)"

definition matches_at :: "string \<Rightarrow> string \<Rightarrow> nat \<Rightarrow> bool" where
  "matches_at key s i =
     (take (length key) (drop i s) = key \<and>
      (case drop (i + length key) s of [] \<Rightarrow> False | c # _ \<Rightarrow> is_digit c))"

definition first_match :: "string \<Rightarrow> string \<Rightarrow> nat \<Rightarrow> bool" where
  "first_match key s n = (matches_at key s n \<and> (\<forall>i\<in>{..<n}. \<not> matches_at key s i))"

definition no_match :: "string \<Rightarrow> string \<Rightarrow> bool" where
  "no_match key s = (\<forall>i\<in>{..<length s}. \<not> matches_at key s i)"

definition digits_at :: "string \<Rightarrow> nat \<Rightarrow> string" where
  "digits_at s i = takeWhile is_digit (drop i s)"

definition decimal_value :: "string \<Rightarrow> int" where
  "decimal_value ds = (\<Sum>i<length ds. digit_val (ds ! i) * 10 ^ (length ds - 1 - i))"

section \<open>Sequences of locker calls\<close>

text \<open>
  A call of \<open>lock\<close> or \<open>unlock\<close>, with the value of \<open>Date.now()\<close> at the call. What a
  \<open>proceed\<close> callback does once called shows as the calls that follow in the sequence.
\<close>

datatype ('k, 'p) locker_op = Lock int 'k 'p | Unlock int 'k

fun locker_call :: "('k, 'p) locker_op \<Rightarrow> ('k, 'p) lock_table \<Rightarrow> ('k, 'p) lock_table" where
  "locker_call (Lock now file proceed) t = fst (lock now file proceed t)"
| "locker_call (Unlock now file) t = fst (unlock now file t)"

fun locker_calls :: "('k, 'p) locker_op list \<Rightarrow> ('k, 'p) lock_table \<Rightarrow> ('k, 'p) lock_table" where
  "locker_calls [] t = t"
| "locker_calls (c # cs) t = locker_calls cs (locker_call c t)"

text \<open>
  \<open>balanced_from k n cs\<close>: with \<open>n\<close> acquisitions of \<open>k\<close> outstanding (the holder and
  its waiters), every \<open>unlock k\<close> of \<open>cs\<close> is made while some acquisition is outstanding,
  and none is outstanding at the end.
\<close>

fun balanced_from :: "'k \<Rightarrow> nat \<Rightarrow> ('k, 'p) locker_op list \<Rightarrow> bool" where
  "balanced_from k n [] = (n = 0)"
| "balanced_from k n (Lock now file proceed # cs) =
     balanced_from k (if file = k then Suc n else n) cs"
| "balanced_from k n (Unlock now file # cs) =
     (if file = k then 0 < n \<and> balanced_from k (n - 1) cs else balanced_from k n cs)"

definition outstanding :: "('k, 'p) lock_table \<Rightarrow> 'k \<Rightarrow> nat" where
  "outstanding t k = (case t k of None \<Rightarrow> 0 | Some e \<Rightarrow> Suc (length (onRelease e)))"

section \<open>The filesystem\<close>

text \<open>
  What \<open>fs.stat\<close> reports of a path. Times are milliseconds since the epoch
  (\<open>Date.prototype.getTime\<close>). The filesystem maps the paths that exist to their
  stats; file contents are not modelled beyond their size.
\<close>

record file_stats =
  isFile :: bool
  fsize :: nat
  atime :: int
  mtime :: int

type_synonym filesystem = "string \<rightharpoonup> file_stats"

text \<open>
  Every asynchronous \<open>fs\<close> call takes a \<open>fault\<close>: \<open>Some code\<close> when the call fails for a
  reason the model does not hold (permissions, I/O errors), with \<open>err.code = code\<close>, and
  \<open>None\<close> when the call does what the paths allow. The calls return \<open>err.code\<close>
  (\<open>None\<close> for no error) and the filesystem after the call.
\<close>

definition fs_stat :: "string option \<Rightarrow> string \<Rightarrow> filesystem \<Rightarrow> string + file_stats" where
  "fs_stat fault path fs =
     (case fault of
        Some e \<Rightarrow> Inl e
      | None \<Rightarrow> (case fs path of None \<Rightarrow> Inl ''ENOENT'' | Some st \<Rightarrow> Inr st))"

definition fs_mkdir :: "string option \<Rightarrow> int \<Rightarrow> string \<Rightarrow> filesystem \<Rightarrow> string option \<times> filesystem" where
  "fs_mkdir fault now path fs =
     (case fault of
        Some e \<Rightarrow> (Some e, fs)
      | None \<Rightarrow>
          (case fs path of
             Some st \<Rightarrow> (Some ''EEXIST'', fs)
           | None \<Rightarrow> (None, fs(path \<mapsto> \<lparr>isFile = False, fsize = 0, atime = now, mtime = now\<rparr>))))"

definition fs_unlink :: "string option \<Rightarrow> string \<Rightarrow> filesystem \<Rightarrow> string option \<times> filesystem" where
  "fs_unlink fault path fs =
     (case fault of
        Some e \<Rightarrow> (Some e, fs)
      | None \<Rightarrow>
          (case fs path of
             None \<Rightarrow> (Some ''ENOENT'', fs)
           | Some st \<Rightarrow> (None, fs(path := None))))"

definition fs_rename :: "string option \<Rightarrow> string \<Rightarrow> string \<Rightarrow> filesystem \<Rightarrow> string option \<times> filesystem" where
  "fs_rename fault oldPath newPath fs =
     (case fault of
        Some e \<Rightarrow> (Some e, fs)
      | None \<Rightarrow>
          (case fs oldPath of
             None \<Rightarrow> (Some ''ENOENT'', fs)
           | Some st \<Rightarrow> (None, (fs(oldPath := None))(newPath \<mapsto> st))))"

text \<open>
  \<open>fs.utimes\<close> is called with two \<open>Date\<close> objects. An invalid date reaches the
  system call as NaN and leaves that time of the file as it is.
\<close>

definition stamp :: "date \<Rightarrow> int \<Rightarrow> int" where
  "stamp d old = (case d of DateAt t \<Rightarrow> t | InvalidDate \<Rightarrow> old)"

definition fs_utimes :: "string option \<Rightarrow> string \<Rightarrow> date \<Rightarrow> date \<Rightarrow> filesystem \<Rightarrow> string option \<times> filesystem" where
  "fs_utimes fault path a m fs =
     (case fault of
        Some e \<Rightarrow> (Some e, fs)
      | None \<Rightarrow>
          (case fs path of
             None \<Rightarrow> (Some ''ENOENT'', fs)
           | Some st \<Rightarrow>
               (None, fs(path \<mapsto> st\<lparr>atime := stamp a (atime st), mtime := stamp m (mtime st)\<rparr>))))"

text \<open>
  \<open>fs.createWriteStream(path)\<close> creates the file or truncates it. When the stream has
  closed, the file (if it is still at its path) holds the bytes that were piped into it.
\<close>

definition fs_createWriteStream :: "int \<Rightarrow> string \<Rightarrow> filesystem \<Rightarrow> filesystem" where
  "fs_createWriteStream now path fs =
     fs(path \<mapsto> \<lparr>isFile = True, fsize = 0, atime = now, mtime = now\<rparr>)"

definition fs_written :: "int \<Rightarrow> string \<Rightarrow> nat \<Rightarrow> filesystem \<Rightarrow> filesystem" where
  "fs_written now path bytes fs =
     (case fs path of
        None \<Rightarrow> fs
      | Some st \<Rightarrow> fs(path \<mapsto> st\<lparr>fsize := bytes, mtime := now\<rparr>))"

section \<open>Errors and decimal strings\<close>

datatype err_code = NoCode | NumCode int | StrCode string

record js_error =
  message :: string
  code :: err_code

definition errorWithCode :: "string \<Rightarrow> int \<Rightarrow> js_error" where
  "errorWithCode msg c = \<lparr>message = msg, code = NumCode c\<rparr>"

definition newError :: "string \<Rightarrow> js_error" where
  "newError msg = \<lparr>message = msg, code = NoCode\<rparr>"

definition digit_char :: "nat \<Rightarrow> char" where
  "digit_char d = char_of (d + 48)"

fun decimal_digits :: "nat \<Rightarrow> string" where
  "decimal_digits n =
     (if 10 \<le> n then decimal_digits (n div 10) @ [digit_char (n mod 10)] else [digit_char n])"

text \<open>A number in a template literal: its decimal digits, after a minus sign when negative.\<close>

definition show_number :: "int \<Rightarrow> string" where
  "show_number i =
     (if 0 \<le> i then decimal_digits (nat i) else CHR ''-'' # decimal_digits (nat (- i)))"

section \<open>Petra instances and the paths of their cache entries\<close>

record petra =
  minimumTtl :: number
  mediaTypes :: "string list"
  requestTimeout :: int
  responseTimeout :: int
  userAgent :: string
  cacheDirectory :: string
  hash :: "string \<Rightarrow> string"

text \<open>\<open>path.join\<close> of a directory and a name without separators.\<close>

definition path_join :: "string \<Rightarrow> string \<Rightarrow> string" where
  "path_join dir name = dir @ ''/'' @ name"

definition petra_cachePath :: "petra \<Rightarrow> string \<Rightarrow> string" where
  "petra_cachePath this fingerprint = path_join (cacheDirectory this) (take 2 fingerprint)"

definition filename_of :: "petra \<Rightarrow> string \<Rightarrow> string" where
  "filename_of this url =
     (let fingerprint = hash this url
      in path_join (petra_cachePath this fingerprint) fingerprint)"

section \<open>Callbacks in flight\<close>

text \<open>
  The variables a callback of one \<open>fetch\<close> or \<open>purge\<close> call closes over: the instance,
  the URL and the caller's \<open>done\<close>, which the model identifies by the number \<open>rid\<close> of
  the call.
\<close>

record ctx =
  rid :: nat
  inst :: petra
  url :: string

definition filename :: "ctx \<Rightarrow> string" where
  "filename c = filename_of (inst c) (url c)"

definition partialContentFilename :: "ctx \<Rightarrow> string" where
  "partialContentFilename c = filename c @ ''.part''"

text \<open>The closures that \<open>fetch\<close> and \<open>purge\<close> pass to \<open>locker.lock\<close>.\<close>

datatype proceed = FetchProceed ctx | PurgeProceed ctx

text \<open>
  An asynchronous operation that has been started and whose callback has not run yet,
  with what the callback closes over. \<open>PBody c cc armed\<close> is a response that is being
  piped into the write stream: \<open>cc\<close> is its \<open>cache-control\<close> header and \<open>armed\<close> says
  that the response timer is running. \<open>PAborted\<close> is such a response after the timer has
  called \<open>req.abort()\<close>: its \<open>end\<close> and \<open>error\<close> listeners are still attached.
\<close>

datatype pending =
    PStat ctx
  | PMkdir ctx string
  | PGet ctx
  | PBody ctx jsval bool
  | PAborted ctx jsval
  | PClose ctx jsval
  | PRename ctx jsval
  | PUtimes ctx date date
  | PUnlinkPart ctx js_error
  | PUnlinkPurge ctx

datatype kind = KStat | KMkdir | KGet | KBody | KAborted | KClose | KRename | KUtimes
  | KUnlinkPart | KUnlinkPurge

fun kind_of :: "pending \<Rightarrow> kind" where
  "kind_of (PStat c) = KStat"
| "kind_of (PMkdir c dir) = KMkdir"
| "kind_of (PGet c) = KGet"
| "kind_of (PBody c cc armed) = KBody"
| "kind_of (PAborted c cc) = KAborted"
| "kind_of (PClose c cc) = KClose"
| "kind_of (PRename c cc) = KRename"
| "kind_of (PUtimes c a m) = KUtimes"
| "kind_of (PUnlinkPart c e) = KUnlinkPart"
| "kind_of (PUnlinkPurge c) = KUnlinkPurge"

fun ctx_of :: "pending \<Rightarrow> ctx" where
  "ctx_of (PStat c) = c"
| "ctx_of (PMkdir c dir) = c"
| "ctx_of (PGet c) = c"
| "ctx_of (PBody c cc armed) = c"
| "ctx_of (PAborted c cc) = c"
| "ctx_of (PClose c cc) = c"
| "ctx_of (PRename c cc) = c"
| "ctx_of (PUtimes c a m) = c"
| "ctx_of (PUnlinkPart c e) = c"
| "ctx_of (PUnlinkPurge c) = c"

text \<open>The first operation in flight that satisfies \<open>P\<close>, and the others.\<close>

fun take_first :: "('a \<Rightarrow> bool) \<Rightarrow> 'a list \<Rightarrow> ('a \<times> 'a list) option" where
  "take_first P [] = None"
| "take_first P (x # xs) =
     (if P x then Some (x, xs)
      else (case take_first P xs of None \<Rightarrow> None | Some (y, ys) \<Rightarrow> Some (y, x # ys)))"

definition is_op :: "kind list \<Rightarrow> nat \<Rightarrow> pending \<Rightarrow> bool" where
  "is_op ks r p = (kind_of p \<in> set ks \<and> rid (ctx_of p) = r)"

section \<open>The process: state, observable actions, events\<close>

datatype fetch_result = Success string date date | Failure js_error

text \<open>
  What the library does that can be seen from outside, in the order it does it: calls of
  \<open>this.log\<close> and \<open>this.debug\<close>, an upstream request being sent or aborted, a lock being
  released, a \<open>proceed\<close> callback being called, and the callbacks of \<open>fetch\<close> and
  \<open>purge\<close> being called (\<open>ADone r (Success filename atime mtime)\<close> is
  \<open>done(null, filename, atime, mtime)\<close>, \<open>ADone r (Failure err)\<close> is \<open>done(err)\<close>,
  \<open>APurged r\<close> is \<open>done()\<close>).
\<close>

datatype action =
    ALog string
  | ADebug string
  | ARequest nat string
  | AAbort nat
  | AUnlock string
  | AProceed nat
  | ADone nat fetch_result
  | APurged nat

record state =
  lockedFiles :: "(string, proceed) lock_table"
  files :: filesystem
  pending :: "pending list"
  trace :: "action list"
  clock :: int
  next_rid :: nat

definition init :: state where
  "init = \<lparr>lockedFiles = Map.empty, files = Map.empty, pending = [], trace = [], clock = 0,
            next_rid = 0\<rparr>"

definition emit :: "action \<Rightarrow> state \<Rightarrow> state" where
  "emit a s = s\<lparr>trace := trace s @ [a]\<rparr>"

definition start :: "pending \<Rightarrow> state \<Rightarrow> state" where
  "start p s = s\<lparr>pending := pending s @ [p]\<rparr>"
section \<open>The library's functions and callbacks\<close>

text \<open>
  Each function below is one function or callback of the source, as a state transformer
  that runs to completion, as a turn of the event loop does. Starting an asynchronous
  operation adds it to \<open>pending\<close>; its callback is the function that \<open>step\<close> applies
  when the operation's completion arrives.
\<close>

text \<open>
  \<open>_fetchFromFilesystem\<close> starts \<open>fs.stat\<close> on the cache file; its callbacks are
  \<open>on_stat\<close> and \<open>on_mkdir\<close> below.
\<close>

definition fetchFromFilesystem :: "ctx \<Rightarrow> state \<Rightarrow> state" where
  "fetchFromFilesystem c s = start (PStat c) s"

text \<open>
  Calling a \<open>proceed\<close> closure: the one of \<open>fetch\<close> calls \<open>_fetchFromFilesystem\<close>, the one
  of \<open>purge\<close> starts \<open>fs.unlink\<close> on the cache file.
\<close>

definition run_proceed :: "proceed \<Rightarrow> state \<Rightarrow> state" where
  "run_proceed p s =
     (case p of
        FetchProceed c \<Rightarrow> fetchFromFilesystem c (emit (AProceed (rid c)) s)
      | PurgeProceed c \<Rightarrow> start (PUnlinkPurge c) (emit (AProceed (rid c)) s))"

definition call_opt :: "proceed option \<Rightarrow> state \<Rightarrow> state" where
  "call_opt q s = (case q of None \<Rightarrow> s | Some p \<Rightarrow> run_proceed p s)"

text \<open>
  \<open>locker.lock\<close> and \<open>locker.unlock\<close> on the process's one lock table: the table is
  updated, then the returned \<open>proceed\<close> is called.
\<close>

definition locker_lock :: "string \<Rightarrow> proceed \<Rightarrow> state \<Rightarrow> state" where
  "locker_lock file p s =
     (let (t, q) = lock (clock s) file p (lockedFiles s)
      in call_opt q (s\<lparr>lockedFiles := t\<rparr>))"

definition locker_unlock :: "string \<Rightarrow> state \<Rightarrow> state" where
  "locker_unlock file s =
     (let (t, q) = unlock (clock s) file (lockedFiles s)
      in call_opt q (emit (AUnlock file) (s\<lparr>lockedFiles := t\<rparr>)))"

text \<open>
  \<open>Petra.prototype.fetch\<close> and \<open>Petra.prototype.purge\<close>: the fingerprint, the shard
  directory and the file name are computed from the URL (\<open>filename\<close>), and the rest
  happens under the lock of the file name.
\<close>

definition fetch :: "petra \<Rightarrow> string \<Rightarrow> state \<Rightarrow> state" where
  "fetch this u s =
     (let c = \<lparr>rid = next_rid s, inst = this, url = u\<rparr>
      in locker_lock (filename c) (FetchProceed c) (s\<lparr>next_rid := Suc (next_rid s)\<rparr>))"

definition purge :: "petra \<Rightarrow> string \<Rightarrow> state \<Rightarrow> state" where
  "purge this u s =
     (let c = \<lparr>rid = next_rid s, inst = this, url = u\<rparr>
      in locker_lock (filename c) (PurgeProceed c) (s\<lparr>next_rid := Suc (next_rid s)\<rparr>))"

text \<open>\<open>_fetchFromUpstream\<close> sends the request with \<open>get\<close>; its callbacks follow below.\<close>

definition fetchFromUpstream :: "ctx \<Rightarrow> state \<Rightarrow> state" where
  "fetchFromUpstream c s = start (PGet c) (emit (ARequest (rid c) (url c)) s)"

text \<open>
  The callback that \<open>fetch\<close> passes to \<open>_fetchFromFilesystem\<close>. The probe always calls
  it with a null error, and with the two dates on a hit only.
\<close>

definition fetch_probe_cb :: "ctx \<Rightarrow> (date \<times> date) option \<Rightarrow> state \<Rightarrow> state" where
  "fetch_probe_cb c r s =
     (case r of
        Some (a, m) \<Rightarrow>
          emit (ADone (rid c) (Success (filename c) a m))
            (locker_unlock (filename c)
              (emit (ADebug (''Filesystem hit '' @ filename c)) s))
      | None \<Rightarrow>
          fetchFromUpstream c (emit (ADebug (''Filesystem miss '' @ filename c)) s))"

text \<open>The callback that \<open>fetch\<close> passes to \<open>_fetchFromUpstream\<close>.\<close>

definition fetch_upstream_cb :: "ctx \<Rightarrow> js_error + date \<times> date \<Rightarrow> state \<Rightarrow> state" where
  "fetch_upstream_cb c r s =
     (case r of
        Inl err \<Rightarrow>
          locker_unlock (filename c)
            (emit (ADone (rid c) (Failure err))
              (emit (ADebug (message err)) s))
      | Inr (a, m) \<Rightarrow>
          emit (ADone (rid c) (Success (filename c) a m))
            (locker_unlock (filename c)
              (emit (ADebug (''Upstream OK '' @ url c)) s)))"

subsection \<open>The filesystem probe\<close>

text \<open>
  What a callback of \<open>_fetchFromFilesystem\<close> does next: it calls \<open>fs.mkdir\<close> on the
  shard directory, or it writes its messages and calls \<open>done\<close>: \<open>done(null)\<close> for
  \<open>None\<close>, \<open>done(null, atime, mtime)\<close> for \<open>Some (atime, mtime)\<close>.
\<close>

datatype probe_next = CallMkdir string | Report "action list" "(date \<times> date) option"

definition stat_cb :: "string \<Rightarrow> string \<Rightarrow> int \<Rightarrow> string + file_stats \<Rightarrow> probe_next" where
  "stat_cb cachePath file now r =
     (case r of
        Inl e \<Rightarrow>
          if e = ''ENOENT'' then CallMkdir cachePath
          else Report [ALog (''Could not stat '' @ file @ '' '' @ e)] None
      | Inr stats \<Rightarrow>
          if isFile stats \<and> 0 < fsize stats \<and> now < mtime stats
          then Report [] (Some (DateAt (atime stats), DateAt (mtime stats)))
          else Report [ADebug (''Cached file '' @ file @ '' expired'')] None)"

definition mkdir_cb :: "string \<Rightarrow> string option \<Rightarrow> probe_next" where
  "mkdir_cb cachePath r =
     (case r of
        Some e \<Rightarrow>
          if e \<noteq> ''EEXIST'' then Report [ALog (''Could not mkdir '' @ cachePath @ '' '' @ e)] None
          else Report [] None
      | None \<Rightarrow> Report [] None)"

definition probe_continue :: "ctx \<Rightarrow> probe_next \<Rightarrow> state \<Rightarrow> state" where
  "probe_continue c n s =
     (case n of
        CallMkdir dir \<Rightarrow> start (PMkdir c dir) s
      | Report msgs r \<Rightarrow> fetch_probe_cb c r (s\<lparr>trace := trace s @ msgs\<rparr>))"

definition on_stat :: "ctx \<Rightarrow> string option \<Rightarrow> state \<Rightarrow> state" where
  "on_stat c fault s =
     probe_continue c
       (stat_cb (petra_cachePath (inst c) (hash (inst c) (url c))) (filename c) (clock s)
          (fs_stat fault (filename c) (files s))) s"

definition on_mkdir :: "ctx \<Rightarrow> string \<Rightarrow> string option \<Rightarrow> state \<Rightarrow> state" where
  "on_mkdir c cachePath fault s =
     (let (r, fs) = fs_mkdir fault (clock s) cachePath (files s)
      in probe_continue c (mkdir_cb cachePath r) (s\<lparr>files := fs\<rparr>))"

subsection \<open>The upstream fetcher\<close>

text \<open>
  \<open>onError\<close> starts the unlink of the \<open>.part\<close> file; the unlink's callback ignores the
  unlink's own error, prefixes the message of \<open>err\<close> and calls \<open>done(err)\<close>.
\<close>

definition onError :: "ctx \<Rightarrow> js_error \<Rightarrow> state \<Rightarrow> state" where
  "onError c err s = start (PUnlinkPart c err) s"

definition on_unlink_part :: "ctx \<Rightarrow> js_error \<Rightarrow> string option \<Rightarrow> state \<Rightarrow> state" where
  "on_unlink_part c err fault s =
     (let (r, fs) = fs_unlink fault (partialContentFilename c) (files s);
          err' = err\<lparr>message := ''Upstream '' @ url c @ '' failed: '' @ message err\<rparr>
      in fetch_upstream_cb c (Inl err') (s\<lparr>files := fs\<rparr>))"

text \<open>
  The callback of \<open>get\<close>. With an error: the code is 504 when \<open>err.code\<close> is truthy and one
  of the three names, else 502. With a response: the status is checked, then the content
  type, and then the timer is set when \<open>responseTimeout\<close> is positive, the write stream
  is created and the response is piped into it.
\<close>

definition transport_code :: "string option \<Rightarrow> int" where
  "transport_code c =
     (case c of
        Some e \<Rightarrow> if e \<noteq> [] \<and> e \<in> set [''ECONNREFUSED'', ''ETIMEDOUT'', ''ESOCKETTIMEDOUT''] then 504 else 502
      | None \<Rightarrow> 502)"

definition on_get_error :: "ctx \<Rightarrow> string option \<Rightarrow> string \<Rightarrow> state \<Rightarrow> state" where
  "on_get_error c errcode msg s = onError c (errorWithCode msg (transport_code errcode)) s"

definition includes_header :: "string list \<Rightarrow> string option \<Rightarrow> bool" where
  "includes_header xs v = (case v of None \<Rightarrow> False | Some x \<Rightarrow> x \<in> set xs)"

definition show_header :: "string option \<Rightarrow> string" where
  "show_header v = (case v of None \<Rightarrow> ''undefined'' | Some x \<Rightarrow> x)"

definition on_get_response :: "ctx \<Rightarrow> int \<Rightarrow> string option \<Rightarrow> jsval \<Rightarrow> state \<Rightarrow> state" where
  "on_get_response c statusCode contentType cacheControl s =
     (if statusCode \<noteq> 200 then
        onError c (errorWithCode (''status code '' @ show_number statusCode) statusCode)
          (emit (AAbort (rid c)) s)
      else if mediaTypes (inst c) \<noteq> [] \<and> \<not> includes_header (mediaTypes (inst c)) contentType then
        onError c (errorWithCode (''unsupported media-type '' @ show_header contentType) 415)
          (emit (AAbort (rid c)) s)
      else
        start (PBody c cacheControl (0 < responseTimeout (inst c)))
          (s\<lparr>files := fs_createWriteStream (clock s) (partialContentFilename c) (files s)\<rparr>))"

text \<open>
  The callbacks of the streaming phase: the response timer (\<open>req.abort()\<close>, then
  \<open>onError\<close>), \<open>end\<close> of the response (the pipe ends the write stream), \<open>error\<close> of the
  response (\<open>onError\<close> with the stream's error), and \<open>close\<close> of the write stream, which
  starts the rename. The timer is part of \<open>PBody\<close>: taking \<open>PBody\<close> out of the operations
  in flight at \<open>end\<close> or \<open>error\<close> is what \<open>clearTimeout\<close> does.
\<close>

definition on_timer :: "ctx \<Rightarrow> jsval \<Rightarrow> state \<Rightarrow> state" where
  "on_timer c cacheControl s =
     onError c
       (errorWithCode (''response timeout of '' @ show_number (responseTimeout (inst c)) @ ''ms'') 504)
       (emit (AAbort (rid c)) (start (PAborted c cacheControl) s))"

definition on_res_end :: "ctx \<Rightarrow> jsval \<Rightarrow> state \<Rightarrow> state" where
  "on_res_end c cacheControl s = start (PClose c cacheControl) s"

definition on_res_error :: "ctx \<Rightarrow> js_error \<Rightarrow> state \<Rightarrow> state" where
  "on_res_error c err s = onError c err s"

definition on_file_close :: "ctx \<Rightarrow> jsval \<Rightarrow> nat \<Rightarrow> state \<Rightarrow> state" where
  "on_file_close c cacheControl bytes s =
     start (PRename c cacheControl)
       (s\<lparr>files := fs_written (clock s) (partialContentFilename c) bytes (files s)\<rparr>)"

text \<open>
  The callbacks of \<open>fs.rename\<close> and \<open>fs.utimes\<close>. In the rename's callback \<open>ttl\<close> is
  \<open>Math.max\<close> of the instance's \<open>minimumTtl\<close> and the TTL of the response, \<open>atime\<close> is
  \<open>new Date()\<close>, the clock's reading, and \<open>mtime\<close> is
  \<open>new Date(atime.getTime() + ttl * 1000)\<close>.
\<close>

definition on_rename :: "ctx \<Rightarrow> jsval \<Rightarrow> string option \<Rightarrow> state \<Rightarrow> state" where
  "on_rename c cacheControl fault s =
     (let (r, fs) = fs_rename fault (partialContentFilename c) (filename c) (files s);
          s' = s\<lparr>files := fs\<rparr>
      in case r of
           Some e \<Rightarrow>
             onError c
               (newError (''could not rename '' @ partialContentFilename c @ '' as '' @ filename c
                           @ '' '' @ e)) s'
         | None \<Rightarrow>
             (let ttl = num_max (minimumTtl (inst c)) (ttlFromCacheControlHeader cacheControl);
                  a = DateAt (clock s);
                  m = new_Date (num_add (getTime a) (num_mult ttl (Num 1000)))
              in start (PUtimes c a m) s'))"

definition on_utimes :: "ctx \<Rightarrow> date \<Rightarrow> date \<Rightarrow> string option \<Rightarrow> state \<Rightarrow> state" where
  "on_utimes c a m fault s =
     (let (r, fs) = fs_utimes fault (filename c) a m (files s);
          s' = s\<lparr>files := fs\<rparr>
      in case r of
           Some e \<Rightarrow> onError c (newError (''could not update '' @ filename c @ '' '' @ e)) s'
         | None \<Rightarrow> fetch_upstream_cb c (Inr (a, m)) s')"

subsection \<open>Purge\<close>

text \<open>The callback of the unlink that \<open>purge\<close> starts: it ignores the unlink's error.\<close>

definition on_unlink_purge :: "ctx \<Rightarrow> string option \<Rightarrow> state \<Rightarrow> state" where
  "on_unlink_purge c fault s =
     (let (r, fs) = fs_unlink fault (filename c) (files s)
      in emit (APurged (rid c)) (locker_unlock (filename c) (s\<lparr>files := fs\<rparr>)))"

section \<open>The event loop\<close>

text \<open>
  What reaches the process: calls of the public functions, the passing of time, and the
  completions of operations in flight, each naming the call it belongs to and carrying
  what the outside world decides (a fault of the filesystem, the response of the upstream
  server, the number of bytes that were written). A completion that matches no
  operation in flight changes nothing.
\<close>

datatype event =
    CallFetch petra string
  | CallPurge petra string
  | Tick int
  | StatDone nat "string option"
  | MkdirDone nat "string option"
  | GetError nat "string option" string
  | GetResponse nat int "string option" jsval
  | TimerFires nat
  | ResEnd nat
  | ResError nat js_error
  | FileClose nat nat
  | RenameDone nat "string option"
  | UtimesDone nat "string option"
  | UnlinkPartDone nat "string option"
  | UnlinkPurgeDone nat "string option"

definition deliver :: "(pending \<Rightarrow> bool) \<Rightarrow> (pending \<Rightarrow> state \<Rightarrow> state) \<Rightarrow> state \<Rightarrow> state" where
  "deliver P handler s =
     (case take_first P (pending s) of
        None \<Rightarrow> s
      | Some (p, rest) \<Rightarrow> handler p (s\<lparr>pending := rest\<rparr>))"

fun step :: "event \<Rightarrow> state \<Rightarrow> state" where
  "step (CallFetch this u) s = fetch this u s"
| "step (CallPurge this u) s = purge this u s"
| "step (Tick t) s = s\<lparr>clock := t\<rparr>"
| "step (StatDone r fault) s =
     deliver (is_op [KStat] r) (\<lambda>p. on_stat (ctx_of p) fault) s"
| "step (MkdirDone r fault) s =
     deliver (is_op [KMkdir] r)
       (\<lambda>p. case p of PMkdir c dir \<Rightarrow> on_mkdir c dir fault | _ \<Rightarrow> (\<lambda>s. s)) s"
| "step (GetError r errcode msg) s =
     deliver (is_op [KGet] r) (\<lambda>p. on_get_error (ctx_of p) errcode msg) s"
| "step (GetResponse r statusCode contentType cacheControl) s =
     deliver (is_op [KGet] r)
       (\<lambda>p. on_get_response (ctx_of p) statusCode contentType cacheControl) s"
| "step (TimerFires r) s =
     deliver (\<lambda>p. case p of PBody c cc armed \<Rightarrow> armed \<and> rid c = r | _ \<Rightarrow> False)
       (\<lambda>p. case p of PBody c cc armed \<Rightarrow> on_timer c cc | _ \<Rightarrow> (\<lambda>s. s)) s"
| "step (ResEnd r) s =
     deliver (is_op [KBody, KAborted] r)
       (\<lambda>p. case p of PBody c cc armed \<Rightarrow> on_res_end c cc
                     | PAborted c cc \<Rightarrow> on_res_end c cc
                     | _ \<Rightarrow> (\<lambda>s. s)) s"
| "step (ResError r err) s =
     deliver (is_op [KBody, KAborted] r) (\<lambda>p. on_res_error (ctx_of p) err) s"
| "step (FileClose r bytes) s =
     deliver (is_op [KClose] r)
       (\<lambda>p. case p of PClose c cc \<Rightarrow> on_file_close c cc bytes | _ \<Rightarrow> (\<lambda>s. s)) s"
| "step (RenameDone r fault) s =
     deliver (is_op [KRename] r)
       (\<lambda>p. case p of PRename c cc \<Rightarrow> on_rename c cc fault | _ \<Rightarrow> (\<lambda>s. s)) s"
| "step (UtimesDone r fault) s =
     deliver (is_op [KUtimes] r)
       (\<lambda>p. case p of PUtimes c a m \<Rightarrow> on_utimes c a m fault | _ \<Rightarrow> (\<lambda>s. s)) s"
| "step (UnlinkPartDone r fault) s =
     deliver (is_op [KUnlinkPart] r)
       (\<lambda>p. case p of PUnlinkPart c err \<Rightarrow> on_unlink_part c err fault | _ \<Rightarrow> (\<lambda>s. s)) s"
| "step (UnlinkPurgeDone r fault) s =
     deliver (is_op [KUnlinkPurge] r) (\<lambda>p. on_unlink_purge (ctx_of p) fault) s"

fun run :: "event list \<Rightarrow> state \<Rightarrow> state" where
  "run [] s = s"
| "run (e # es) s = run es (step e s)"
section \<open>Observations on states and traces\<close>

text \<open>The results a \<open>fetch\<close> call's \<open>done\<close> has been called with, in order.\<close>

fun dones :: "nat \<Rightarrow> action list \<Rightarrow> fetch_result list" where
  "dones r [] = []"
| "dones r (ADone r' x # as) = (if r' = r then x # dones r as else dones r as)"
| "dones r (a # as) = dones r as"

text \<open>The operations in flight that belong to call \<open>r\<close>, and those of the other calls.\<close>

definition ops_of :: "nat \<Rightarrow> state \<Rightarrow> pending list" where
  "ops_of r s = filter (\<lambda>q. rid (ctx_of q) = r) (pending s)"

definition ops_besides :: "nat \<Rightarrow> state \<Rightarrow> pending list" where
  "ops_besides r s = filter (\<lambda>q. rid (ctx_of q) \<noteq> r) (pending s)"

text \<open>
  What releasing the lock of \<open>file\<close> in state \<open>s\<close> sets off: the \<open>proceed\<close> of the first
  waiter is called, if there is one.
\<close>

definition proceed_ctx :: "proceed \<Rightarrow> ctx" where
  "proceed_ctx p = (case p of FetchProceed c \<Rightarrow> c | PurgeProceed c \<Rightarrow> c)"

definition next_waiter :: "string \<Rightarrow> state \<Rightarrow> proceed option" where
  "next_waiter file s =
     (case lockedFiles s file of
        None \<Rightarrow> None
      | Some e \<Rightarrow> (case onRelease e of [] \<Rightarrow> None | p # ps \<Rightarrow> Some p))"

definition woken :: "string \<Rightarrow> state \<Rightarrow> action list" where
  "woken file s =
     (case next_waiter file s of None \<Rightarrow> [] | Some p \<Rightarrow> [AProceed (rid (proceed_ctx p))])"

text \<open>The operation that calling a \<open>proceed\<close> starts.\<close>

definition first_op :: "proceed \<Rightarrow> pending" where
  "first_op p = (case p of FetchProceed c \<Rightarrow> PStat c | PurgeProceed c \<Rightarrow> PUnlinkPurge c)"

definition started :: "string \<Rightarrow> state \<Rightarrow> pending list" where
  "started file s = (case next_waiter file s of None \<Rightarrow> [] | Some p \<Rightarrow> [first_op p])"

section \<open>Single flight\<close>

text \<open>
  An upstream request is in flight from the moment it is sent until its response has
  ended, failed or been aborted. \<open>single_flight s\<close>: no two requests in flight in \<open>s\<close>
  are for the same cache file.
\<close>

definition fname :: "pending \<Rightarrow> string" where
  "fname p = filename (ctx_of p)"

definition in_flight :: "pending \<Rightarrow> bool" where
  "in_flight p = (kind_of p = KGet \<or> kind_of p = KBody)"

definition single_flight :: "state \<Rightarrow> bool" where
  "single_flight s = distinct (map fname (filter in_flight (pending s)))"

text \<open>The calls whose upstream request has been sent, in order.\<close>

fun requests :: "action list \<Rightarrow> nat list" where
  "requests [] = []"
| "requests (ARequest r u # as) = r # requests as"
| "requests (a # as) = requests as"

text \<open>
  \<open>quiet es s\<close>: in the run of \<open>es\<close> from \<open>s\<close>, no \<open>end\<close> or \<open>error\<close> of a response is
  delivered to a response that the timer has aborted.
\<close>

definition reaches_aborted :: "nat \<Rightarrow> state \<Rightarrow> bool" where
  "reaches_aborted r s =
     (case take_first (is_op [KBody, KAborted] r) (pending s) of
        Some (p, rest) \<Rightarrow> kind_of p = KAborted
      | None \<Rightarrow> False)"

fun calm :: "event \<Rightarrow> state \<Rightarrow> bool" where
  "calm (ResEnd r) s = (\<not> reaches_aborted r s)"
| "calm (ResError r err) s = (\<not> reaches_aborted r s)"
| "calm e s = True"

fun quiet :: "event list \<Rightarrow> state \<Rightarrow> bool" where
  "quiet [] s = True"
| "quiet (e # es) s = (calm e s \<and> quiet es (step e s))"

text \<open>
  The invariant behind single flight. An operation is live unless it is the leftover of
  an aborted response. No two live operations are for the same cache file; the file of
  a live operation is locked; and every waiter of a lock waits for its own cache file.
\<close>

definition live :: "pending \<Rightarrow> bool" where
  "live p = (kind_of p \<noteq> KAborted)"

definition lock_inv :: "(string, proceed) lock_table \<Rightarrow> pending list \<Rightarrow> bool" where
  "lock_inv t ps =
     (distinct (map fname (filter live ps)) \<and>
      (\<forall>p\<in>set ps. live p \<longrightarrow> fname p \<in> dom t) \<and>
      (\<forall>f e. t f = Some e \<longrightarrow> (\<forall>q\<in>set (onRelease e). filename (proceed_ctx q) = f)))"

text \<open>
  How a callback of call \<open>c\<close> moves the process from \<open>s\<close> to \<open>s'\<close>: it starts operations
  for the same cache file, at most one of them live, and leaves the locks alone; or it
  releases the lock of the cache file, which starts the first waiter's operation.
\<close>

definition advances :: "ctx \<Rightarrow> state \<Rightarrow> state \<Rightarrow> bool" where
  "advances c s s' =
     ((lockedFiles s' = lockedFiles s \<and>
       (\<exists>new. pending s' = pending s @ new \<and> (\<forall>q\<in>set new. fname q = filename c) \<and>
              length (filter live new) \<le> 1)) \<or>
      (lockedFiles s' = fst (unlock (clock s) (filename c) (lockedFiles s)) \<and>
       pending s' = pending s @ started (filename c) s))"

section \<open>Expiry\<close>

text \<open>
  The \<open>mtime\<close> that the callback of the rename computes for call \<open>c\<close> from the
  \<open>cache-control\<close> header \<open>cc\<close> of the response when the clock reads \<open>now\<close>.
\<close>

definition expiry :: "ctx \<Rightarrow> jsval \<Rightarrow> int \<Rightarrow> date" where
  "expiry c cc now =
     new_Date (num_add (getTime (DateAt now))
                 (num_mult (num_max (minimumTtl (inst c)) (ttlFromCacheControlHeader cc)) (Num 1000)))"

section \<open>Example instances, filesystems and runs\<close>

text \<open>Concrete inputs on which the theorems below are exercised.\<close>

definition c5_fs :: filesystem where
  "c5_fs = [''/c/ab/abcd'' \<mapsto> \<lparr>isFile = True, fsize = 18, atime = 5, mtime = 700\<rparr>,
            ''/c/ab/old'' \<mapsto> \<lparr>isFile = True, fsize = 18, atime = 5, mtime = 60\<rparr>]"

definition ex_petra :: petra where
  "ex_petra = \<lparr>minimumTtl = Num 10, mediaTypes = [], requestTimeout = 10000, responseTimeout = 100,
               userAgent = ''lovell/petra'', cacheDirectory = ''/tmp/petra'',
               hash = (\<lambda>u. ''test-fingerprint'')\<rparr>"

definition ex_url :: string where
  "ex_url = ''http://example.com/path''"

definition ex_ctx :: "nat \<Rightarrow> ctx" where
  "ex_ctx r = \<lparr>rid = r, inst = ex_petra, url = ex_url\<rparr>"

definition ex_file :: string where
  "ex_file = ''/tmp/petra/te/test-fingerprint''"

definition ex_stats :: file_stats where
  "ex_stats = \<lparr>isFile = True, fsize = 18, atime = 50, mtime = 10050\<rparr>"

text \<open>
  A state in which call 0 holds the lock of \<open>ex_file\<close> with the one operation \<open>p\<close> in
  flight, call 1 waits for the lock, the cache holds the files of \<open>fs\<close>, and the clock
  reads 100.
\<close>

definition ex_state :: "pending \<Rightarrow> filesystem \<Rightarrow> state" where
  "ex_state p fs =
     \<lparr>lockedFiles = [ex_file \<mapsto> \<lparr>lastUpdated = 0, onRelease = [FetchProceed (ex_ctx 1)]\<rparr>],
      files = fs, pending = [p], trace = [], clock = 100, next_rid = 2\<rparr>"

definition ex_petra_png :: petra where
  "ex_petra_png = ex_petra\<lparr>mediaTypes := [''image/png'']\<rparr>"

definition ex_ctx_png :: "nat \<Rightarrow> ctx" where
  "ex_ctx_png r = \<lparr>rid = r, inst = ex_petra_png, url = ex_url\<rparr>"

definition ex_petra0 :: petra where
  "ex_petra0 = ex_petra\<lparr>minimumTtl := Num 0\<rparr>"

definition ex_petra_b :: petra where
  "ex_petra_b = ex_petra\<lparr>cacheDirectory := ''/tmp/other''\<rparr>"

text \<open>
  A state in which the lock of \<open>ex_file\<close> is held, the purge that is call 1 is the first
  waiter, a fetch that is call 2 waits behind it, and nothing of call 1 is in flight.
\<close>

definition ex_queued :: state where
  "ex_queued =
     \<lparr>lockedFiles = [ex_file \<mapsto> \<lparr>lastUpdated = 0,
                          onRelease = [PurgeProceed (ex_ctx 1), FetchProceed (ex_ctx 2)]\<rparr>],
      files = [ex_file \<mapsto> ex_stats], pending = [], trace = [], clock = 100, next_rid = 3\<rparr>"

section \<open>Facts about numbers and dates\<close>

text \<open>
  \<open>ilog2 x\<close> is the binary exponent of a positive \<open>x\<close>; integers of magnitude up to
  \<open>2^53\<close> are doubles; a number of \<open>2^1024\<close> or more rounds to infinity; and the double
  nearest to a natural number is a natural number or infinity.
\<close>

lemma powi_bitlen:
  assumes "0 < p"
  shows "(2::rat) powi (bitlen p - 1) \<le> of_int p" "of_int p < (2::rat) powi (bitlen p)"
proof -
  from bitlen_bounds[OF assms] have a: "2 ^ nat (bitlen p - 1) \<le> p" and b: "p < 2 ^ nat (bitlen p)"
    by simp_all
  have ge: "1 \<le> bitlen p" using assms by (auto simp: bitlen_alt_def)
  have "(2::rat) powi (bitlen p - 1) = 2 ^ nat (bitlen p - 1)"
    using ge by (simp add: power_int_def)
  also have "\<dots> = of_int (2 ^ nat (bitlen p - 1))" by simp
  also have "\<dots> \<le> of_int p" using a by (simp only: of_int_le_iff)
  finally show "(2::rat) powi (bitlen p - 1) \<le> of_int p" .
  have "(of_int p :: rat) < of_int (2 ^ nat (bitlen p))" using b by (simp only: of_int_less_iff)
  also have "\<dots> = 2 ^ nat (bitlen p)" by simp
  also have "\<dots> = (2::rat) powi (bitlen p)" using ge by (simp add: power_int_def)
  finally show "of_int p < (2::rat) powi (bitlen p)" .
qed

lemma ilog2_bounds:
  assumes "0 < x"
  shows "2 powi (ilog2 x) \<le> x \<and> x < 2 powi (ilog2 x + 1)"
proof -
  obtain p q where pq: "quotient_of x = (p, q)" by (cases "quotient_of x")
  then have q: "0 < q" and x: "x = of_int p / of_int q"
    by (simp_all add: quotient_of_denom_pos quotient_of_div)
  from assms x q have p: "0 < p" by (simp add: zero_less_divide_iff)
  define d where "d = bitlen p - bitlen q"
  note P = powi_bitlen[OF p] and Q = powi_bitlen[OF q]
  have qpos: "(0::rat) < of_int q" using q by simp
  have lo: "2 powi (d - 1) \<le> x"
  proof -
    have "(2::rat) powi (d - 1) * of_int q \<le> 2 powi (d - 1) * 2 powi (bitlen q)"
      using Q(2) by (intro mult_left_mono) simp_all
    also have "\<dots> = 2 powi (bitlen p - 1)"
      by (simp add: d_def power_int_add[symmetric])
    also have "\<dots> \<le> of_int p" by (rule P(1))
    finally show ?thesis unfolding x using qpos by (simp add: pos_le_divide_eq)
  qed
  have hi: "x < 2 powi (d + 1)"
  proof -
    have "of_int p < (2::rat) powi (bitlen p)" by (rule P(2))
    also have "\<dots> = 2 powi (d + 1) * 2 powi (bitlen q - 1)"
      by (simp add: d_def power_int_add[symmetric])
    also have "\<dots> \<le> 2 powi (d + 1) * of_int q"
      using Q(1) by (intro mult_left_mono) simp_all
    finally show ?thesis unfolding x using qpos by (simp add: pos_divide_less_eq)
  qed
  have il: "ilog2 x = (if 2 powi d \<le> x then d else d - 1)"
    by (simp add: ilog2_def pq d_def Let_def)
  show ?thesis
  proof (cases "2 powi d \<le> x")
    case True
    then show ?thesis using hi by (simp add: il)
  next
    case False
    then show ?thesis using lo by (simp add: il)
  qed
qed

lemma ilog2_unique:
  assumes "0 < x" "2 powi k \<le> x" "x < 2 powi (k + 1)"
  shows "ilog2 x = k"
proof -
  from ilog2_bounds[OF assms(1)] have a: "2 powi (ilog2 x) \<le> x" and b: "x < 2 powi (ilog2 x + 1)"
    by simp_all
  from a assms(3) have "(2::rat) powi (ilog2 x) < 2 powi (k + 1)" by (rule le_less_trans)
  then have 1: "ilog2 x < k + 1"
    using power_int_increasing[of "k + 1" "ilog2 x" "2::rat"] by (cases "ilog2 x < k + 1") auto
  from assms(2) b have "(2::rat) powi k < 2 powi (ilog2 x + 1)" by (rule le_less_trans)
  then have 2: "k < ilog2 x + 1"
    using power_int_increasing[of "ilog2 x + 1" k "2::rat"] by (cases "k < ilog2 x + 1") auto
  from 1 2 show ?thesis by simp
qed


lemma round_half_even_of_int [simp]: "round_half_even (of_int j) = j"
  by (simp add: round_half_even_def)

lemma round_half_even_ge: "of_int j \<le> x \<Longrightarrow> j \<le> round_half_even x"
proof -
  assume "of_int j \<le> x"
  then have "j \<le> \<lfloor>x\<rfloor>" by (simp add: le_floor_iff)
  then show ?thesis by (simp add: round_half_even_def Let_def)
qed

lemma to_double_pos:
  assumes "0 < x" "2 powi k \<le> x" "x < 2 powi (k + 1)"
  shows "to_double x =
     (let e = max (k - 52) (- 1074);
          y = of_int (round_half_even (x / 2 powi e)) * 2 powi e
      in if 2 ^ 1024 \<le> y then PosInf else Num y)"
  using assms ilog2_unique[OF assms] by (simp add: to_double_def Let_def)

lemma to_double_neg: "to_double (- x) = (case to_double x of Num y \<Rightarrow> Num (- y)
     | PosInf \<Rightarrow> NegInf | NegInf \<Rightarrow> PosInf | NaN \<Rightarrow> NaN)"
  by (simp add: to_double_def Let_def)

lemma to_double_exact_pos:
  assumes n: "0 < n" "n \<le> 2 ^ 53"
  shows "to_double (of_int n) = Num (of_int n)"
proof -
  let ?x = "of_int n :: rat"
  have x: "0 < ?x" using n by simp
  have small: "?x < 2 ^ 1024"
  proof -
    have "n < 2 ^ 1024" using n(2) by (rule le_less_trans) simp
    then have "?x < of_int (2 ^ 1024)" by (simp only: of_int_less_iff)
    then show ?thesis by simp
  qed
  show ?thesis
  proof (cases "n = 2 ^ 53")
    case True
    have a: "(2::rat) powi 53 \<le> ?x" using True by simp
    have b: "?x < (2::rat) powi (53 + 1)" using True by simp
    have "?x / 2 powi 1 = of_int (2 ^ 52)" using True by simp
    then have "round_half_even (?x / 2 powi 1) = 2 ^ 52"
      by (simp only: round_half_even_of_int)
    then show ?thesis
      using to_double_pos[OF x a b] True by (simp add: Let_def)
  next
    case False
    with n have lt: "n < 2 ^ 53" by simp
    from ilog2_bounds[OF x] have lo: "2 powi (ilog2 ?x) \<le> ?x" and hi: "?x < 2 powi (ilog2 ?x + 1)"
      by simp_all
    have "?x < of_int (2 ^ 53)" using lt by (simp only: of_int_less_iff)
    then have "?x < (2::rat) powi 53" by simp
    with lo have "(2::rat) powi (ilog2 ?x) < 2 powi 53" by (rule le_less_trans)
    then have k: "ilog2 ?x \<le> 52"
      using power_int_increasing[of 53 "ilog2 ?x" "2::rat"] by (cases "ilog2 ?x \<le> 52") auto
    define e where "e = max (ilog2 ?x - 52) (- 1074)"
    have e: "e \<le> 0" using k by (simp add: e_def)
    have "?x / 2 powi e = ?x * 2 powi (- e)" by (simp add: power_int_minus field_simps)
    also have "\<dots> = ?x * 2 ^ nat (- e)" using e by (simp add: power_int_def)
    also have "\<dots> = of_int (n * 2 ^ nat (- e))" by simp
    finally have q: "?x / 2 powi e = of_int (n * 2 ^ nat (- e))" .
    have "of_int (round_half_even (?x / 2 powi e)) * (2::rat) powi e = ?x / 2 powi e * 2 powi e"
      unfolding q round_half_even_of_int ..
    also have "\<dots> = ?x" by simp
    finally have y: "of_int (round_half_even (?x / 2 powi e)) * (2::rat) powi e = ?x" .
    show ?thesis
      using to_double_pos[OF x lo hi] y small unfolding Let_def e_def[symmetric]
      by simp
  qed
qed

lemma to_double_exact: "\<bar>n\<bar> \<le> 2 ^ 53 \<Longrightarrow> to_double (of_int n) = Num (of_int n)"
proof -
  assume h: "\<bar>n\<bar> \<le> 2 ^ 53"
  consider "n = 0" | "0 < n" | "n < 0" by linarith
  then show ?thesis
  proof cases
    case 1
    then show ?thesis by (simp add: to_double_def)
  next
    case 2
    with h show ?thesis by (intro to_double_exact_pos) simp_all
  next
    case 3
    with h have "to_double (of_int (- n)) = Num (of_int (- n))"
      by (intro to_double_exact_pos) simp_all
    then have "to_double (- of_int (- n)) = Num (- of_int (- n))"
      unfolding to_double_neg[of "of_int (- n)"] by simp
    then show ?thesis by simp
  qed
qed

lemma pow52: "(2::rat) ^ 52 * 2 powi (k - 52) = 2 powi k"
proof -
  have "(2::rat) powi (52 + (k - 52)) = 2 powi 52 * 2 powi (k - 52)"
    by (rule power_int_add) simp
  then show ?thesis by simp
qed

lemma to_double_overflow:
  assumes "2 ^ 1024 \<le> x"
  shows "to_double x = PosInf"
proof -
  have x: "0 < x" using assms by (rule less_le_trans[rotated]) simp
  from ilog2_bounds[OF x] have lo: "2 powi (ilog2 x) \<le> x" and hi: "x < 2 powi (ilog2 x + 1)"
    by simp_all
  have "(2::rat) powi 1024 \<le> x" using assms by simp
  with hi have "(2::rat) powi 1024 < 2 powi (ilog2 x + 1)" by linarith
  then have k: "1024 \<le> ilog2 x"
    using power_int_increasing[of "ilog2 x + 1" 1024 "2::rat"] by (cases "1024 \<le> ilog2 x") auto
  define e where "e = max (ilog2 x - 52) (- 1074)"
  have e: "e = ilog2 x - 52" using k by (simp add: e_def)
  have pe: "(0::rat) < 2 powi e" by simp
  have "(2::rat) ^ 52 * 2 powi e = 2 powi (ilog2 x)" unfolding e by (rule pow52)
  also have "\<dots> \<le> x" by (rule lo)
  finally have "(2::rat) ^ 52 \<le> x / 2 powi e" using pe by (simp add: pos_le_divide_eq)
  then have "of_int (2 ^ 52) \<le> x / 2 powi e" by simp
  then have m: "2 ^ 52 \<le> round_half_even (x / 2 powi e)" by (rule round_half_even_ge)
  have "(2::rat) ^ 1024 \<le> 2 powi (ilog2 x)"
    using power_int_increasing[of 1024 "ilog2 x" "2::rat"] k by simp
  also have "\<dots> = of_int (2 ^ 52) * 2 powi e"
    unfolding e using pow52[of "ilog2 x"] by simp
  also have "\<dots> \<le> of_int (round_half_even (x / 2 powi e)) * 2 powi e"
    using m pe by (intro mult_right_mono) (simp_all only: of_int_le_iff zero_le_power_int zero_le_numeral)
  finally have big: "2 ^ 1024 \<le> of_int (round_half_even (x / 2 powi e)) * (2::rat) powi e" .
  show ?thesis
    using to_double_pos[OF x lo hi] big unfolding Let_def e_def[symmetric] by simp
qed

lemma to_double_of_nonneg_int:
  assumes "0 \<le> n"
  shows "(\<exists>j\<ge>0. to_double (of_int n) = Num (of_int j)) \<or> to_double (of_int n) = PosInf"
proof (cases "n \<le> 2 ^ 53")
  case True
  with assms have "to_double (of_int n) = Num (of_int n)" by (intro to_double_exact) simp
  with assms show ?thesis by blast
next
  case False
  then have big: "2 ^ 53 < n" by simp
  let ?x = "of_int n :: rat"
  have x: "0 < ?x" using big by (simp add: less_trans[rotated])
  from ilog2_bounds[OF x] have lo: "2 powi (ilog2 ?x) \<le> ?x" and hi: "?x < 2 powi (ilog2 ?x + 1)"
    by simp_all
  have "of_int (2 ^ 53) < ?x" using big by (simp only: of_int_less_iff)
  then have "(2::rat) powi 53 < ?x" by simp
  with hi have "(2::rat) powi 53 < 2 powi (ilog2 ?x + 1)" by linarith
  then have k: "53 \<le> ilog2 ?x"
    using power_int_increasing[of "ilog2 ?x + 1" 53 "2::rat"] by (cases "53 \<le> ilog2 ?x") auto
  define e where "e = max (ilog2 ?x - 52) (- 1074)"
  have e: "0 \<le> e" using k by (simp add: e_def)
  define m where "m = round_half_even (?x / 2 powi e)"
  have "of_int 0 \<le> ?x / 2 powi e" using x by simp
  then have m0: "0 \<le> m" unfolding m_def by (rule round_half_even_ge)
  have y: "of_int m * (2::rat) powi e = of_int (m * 2 ^ nat e)"
    using e by (simp add: power_int_def)
  have j: "0 \<le> m * 2 ^ nat e" using m0 by simp
  from to_double_pos[OF x lo hi]
  have "to_double ?x = (if 2 ^ 1024 \<le> (of_int (m * 2 ^ nat e) :: rat) then PosInf
                         else Num (of_int (m * 2 ^ nat e)))"
    unfolding Let_def e_def[symmetric] m_def[symmetric] y .
  with j show ?thesis by (cases "2 ^ 1024 \<le> (of_int (m * 2 ^ nat e) :: rat)") auto
qed

lemma floor_numeral_div_rat:
  "\<lfloor>(numeral a :: rat) / numeral b\<rfloor> = numeral a div numeral b"
  using floor_divide_of_int_eq[of "numeral a" "numeral b", where ?'a = rat] by simp

lemma num_max_Num:
  "num_max a (Num y) = (case a of Num x \<Rightarrow> Num (max x y) | PosInf \<Rightarrow> PosInf | NegInf \<Rightarrow> Num y | NaN \<Rightarrow> NaN)"
  by (simp add: num_max_def split: number.splits)






section \<open>Basic facts about the process model\<close>

text \<open>Updates of different fields commute; they are kept in the order of the fields.\<close>

lemma state_update_order [simp]:
  "s\<lparr>files := y1, lockedFiles := x1\<rparr> = s\<lparr>lockedFiles := x1, files := y1\<rparr>"
  "s\<lparr>pending := y2, lockedFiles := x2\<rparr> = s\<lparr>lockedFiles := x2, pending := y2\<rparr>"
  "s\<lparr>trace := y3, lockedFiles := x3\<rparr> = s\<lparr>lockedFiles := x3, trace := y3\<rparr>"
  "s\<lparr>clock := y4, lockedFiles := x4\<rparr> = s\<lparr>lockedFiles := x4, clock := y4\<rparr>"
  "s\<lparr>next_rid := y5, lockedFiles := x5\<rparr> = s\<lparr>lockedFiles := x5, next_rid := y5\<rparr>"
  "s\<lparr>pending := y6, files := x6\<rparr> = s\<lparr>files := x6, pending := y6\<rparr>"
  "s\<lparr>trace := y7, files := x7\<rparr> = s\<lparr>files := x7, trace := y7\<rparr>"
  "s\<lparr>clock := y8, files := x8\<rparr> = s\<lparr>files := x8, clock := y8\<rparr>"
  "s\<lparr>next_rid := y9, files := x9\<rparr> = s\<lparr>files := x9, next_rid := y9\<rparr>"
  "s\<lparr>trace := y10, pending := x10\<rparr> = s\<lparr>pending := x10, trace := y10\<rparr>"
  "s\<lparr>clock := y11, pending := x11\<rparr> = s\<lparr>pending := x11, clock := y11\<rparr>"
  "s\<lparr>next_rid := y12, pending := x12\<rparr> = s\<lparr>pending := x12, next_rid := y12\<rparr>"
  "s\<lparr>clock := y13, trace := x13\<rparr> = s\<lparr>trace := x13, clock := y13\<rparr>"
  "s\<lparr>next_rid := y14, trace := x14\<rparr> = s\<lparr>trace := x14, next_rid := y14\<rparr>"
  "s\<lparr>next_rid := y15, clock := x15\<rparr> = s\<lparr>clock := x15, next_rid := y15\<rparr>"
  by (cases s; simp)+

lemma emit_fields [simp]:
  "trace (emit a s) = trace s @ [a]"
  "pending (emit a s) = pending s"
  "files (emit a s) = files s"
  "lockedFiles (emit a s) = lockedFiles s"
  "clock (emit a s) = clock s"
  "next_rid (emit a s) = next_rid s"
  by (simp_all add: emit_def)

lemma start_fields [simp]:
  "trace (start p s) = trace s"
  "pending (start p s) = pending s @ [p]"
  "files (start p s) = files s"
  "lockedFiles (start p s) = lockedFiles s"
  "clock (start p s) = clock s"
  "next_rid (start p s) = next_rid s"
  by (simp_all add: start_def)

lemma run_proceed_fields [simp]:
  "trace (run_proceed p s) = trace s @ [AProceed (rid (proceed_ctx p))]"
  "pending (run_proceed p s) = pending s @ [first_op p]"
  "files (run_proceed p s) = files s"
  "lockedFiles (run_proceed p s) = lockedFiles s"
  "clock (run_proceed p s) = clock s"
  "next_rid (run_proceed p s) = next_rid s"
  by (cases p; simp add: run_proceed_def fetchFromFilesystem_def proceed_ctx_def first_op_def)+

lemma next_waiter_unlock:
  "snd (unlock now file (lockedFiles s)) = next_waiter file s"
  by (simp add: unlock_def next_waiter_def split: option.splits list.splits)

lemma locker_unlock_fields [simp]:
  "trace (locker_unlock file s) = trace s @ [AUnlock file] @ woken file s"
  "pending (locker_unlock file s) = pending s @ started file s"
  "files (locker_unlock file s) = files s"
  "lockedFiles (locker_unlock file s) = fst (unlock (clock s) file (lockedFiles s))"
  "clock (locker_unlock file s) = clock s"
  "next_rid (locker_unlock file s) = next_rid s"
  by (auto simp: locker_unlock_def call_opt_def woken_def started_def unlock_def next_waiter_def
      split: option.splits list.splits prod.splits)

lemma locker_lock_fields [simp]:
  "trace (locker_lock file p s)
     = trace s @ (if lockedFiles s file = None then [AProceed (rid (proceed_ctx p))] else [])"
  "pending (locker_lock file p s)
     = pending s @ (if lockedFiles s file = None then [first_op p] else [])"
  "files (locker_lock file p s) = files s"
  "lockedFiles (locker_lock file p s) = fst (lock (clock s) file p (lockedFiles s))"
  "clock (locker_lock file p s) = clock s"
  "next_rid (locker_lock file p s) = next_rid s"
  by (auto simp: locker_lock_def call_opt_def lock_def split: option.splits prod.splits)

lemma next_waiter_cong [simp]:
  "next_waiter file (emit a s) = next_waiter file s"
  "next_waiter file (start p s) = next_waiter file s"
  "next_waiter file (s\<lparr>files := fs\<rparr>) = next_waiter file s"
  "next_waiter file (s\<lparr>pending := ps\<rparr>) = next_waiter file s"
  "next_waiter file (s\<lparr>trace := tr\<rparr>) = next_waiter file s"
  by (simp_all add: next_waiter_def)

lemma woken_cong [simp]:
  "woken file (emit a s) = woken file s"
  "woken file (start p s) = woken file s"
  "woken file (s\<lparr>files := fs\<rparr>) = woken file s"
  "woken file (s\<lparr>pending := ps\<rparr>) = woken file s"
  "woken file (s\<lparr>trace := tr\<rparr>) = woken file s"
  by (simp_all add: woken_def)

lemma started_cong [simp]:
  "started file (emit a s) = started file s"
  "started file (start p s) = started file s"
  "started file (s\<lparr>files := fs\<rparr>) = started file s"
  "started file (s\<lparr>pending := ps\<rparr>) = started file s"
  "started file (s\<lparr>trace := tr\<rparr>) = started file s"
  by (simp_all add: started_def)

lemma fetch_probe_cb_fields:
  "trace (fetch_probe_cb c (Some (a, m)) s)
     = trace s @ [ADebug (''Filesystem hit '' @ filename c), AUnlock (filename c)]
         @ woken (filename c) s @ [ADone (rid c) (Success (filename c) a m)]"
  "trace (fetch_probe_cb c None s)
     = trace s @ [ADebug (''Filesystem miss '' @ filename c), ARequest (rid c) (url c)]"
  "pending (fetch_probe_cb c (Some (a, m)) s) = pending s @ started (filename c) s"
  "pending (fetch_probe_cb c None s) = pending s @ [PGet c]"
  "files (fetch_probe_cb c r s) = files s"
  by (cases r; simp add: fetch_probe_cb_def fetchFromUpstream_def split: prod.splits)+

lemma fetch_upstream_cb_fields:
  "trace (fetch_upstream_cb c (Inr (a, m)) s)
     = trace s @ [ADebug (''Upstream OK '' @ url c), AUnlock (filename c)]
         @ woken (filename c) s @ [ADone (rid c) (Success (filename c) a m)]"
  "trace (fetch_upstream_cb c (Inl err) s)
     = trace s @ [ADebug (message err), ADone (rid c) (Failure err), AUnlock (filename c)]
         @ woken (filename c) s"
  "pending (fetch_upstream_cb c r s) = pending s @ started (filename c) s"
  "files (fetch_upstream_cb c r s) = files s"
  by (cases r; simp add: fetch_upstream_cb_def split: prod.splits)+

lemma take_first_unique:
  "filter P ps = [p] \<Longrightarrow> take_first P ps = Some (p, filter (\<lambda>q. \<not> P q) ps)"
proof (induction ps)
  case Nil
  then show ?case by simp
next
  case (Cons x xs)
  show ?case
  proof (cases "P x")
    case True
    with Cons.prems have "x = p" "filter P xs = []" by simp_all
    then have "filter (\<lambda>q. \<not> P q) xs = xs"
      by (simp add: filter_empty_conv)
    with True \<open>x = p\<close> show ?thesis by simp
  next
    case False
    with Cons show ?thesis by simp
  qed
qed

lemma take_first_none: "filter P ps = [] \<Longrightarrow> take_first P ps = None"
  by (induction ps) (auto split: if_splits)

lemma take_first_append:
  "take_first P (xs @ ys) =
     (case take_first P xs of
        Some (p, rest) \<Rightarrow> Some (p, rest @ ys)
      | None \<Rightarrow> (case take_first P ys of None \<Rightarrow> None | Some (p, rest) \<Rightarrow> Some (p, xs @ rest)))"
  by (induction xs) (auto split: option.splits)

lemma dones_append [simp]: "dones r (xs @ ys) = dones r xs @ dones r ys"
  by (induction r xs rule: dones.induct) simp_all

lemma ops_of_rid: "ops_of r s = [p] \<Longrightarrow> rid (ctx_of p) = r"
proof -
  assume h: "ops_of r s = [p]"
  then have "p \<in> set (ops_of r s)" by simp
  then show ?thesis by (simp add: ops_of_def)
qed

lemma deliver_sole:
  assumes sole: "ops_of r s = [p]" and Pp: "P p" and Pr: "\<And>q. P q \<Longrightarrow> rid (ctx_of q) = r"
  shows "deliver P h s = h p (s\<lparr>pending := ops_besides r s\<rparr>)"
proof -
  have mem: "\<And>q. q \<in> set (pending s) \<Longrightarrow> rid (ctx_of q) = r \<Longrightarrow> q = p"
  proof -
    fix q assume "q \<in> set (pending s)" "rid (ctx_of q) = r"
    then have "q \<in> set (ops_of r s)" by (simp add: ops_of_def)
    with sole show "q = p" by simp
  qed
  have "filter P (pending s) = filter P (ops_of r s)"
    unfolding ops_of_def filter_filter
    by (rule filter_cong) (auto dest: Pr)
  with sole Pp have one: "filter P (pending s) = [p]" by simp
  have "filter (\<lambda>q. \<not> P q) (pending s) = ops_besides r s"
    unfolding ops_besides_def
  proof (rule filter_cong)
    fix q assume q: "q \<in> set (pending s)"
    show "(\<not> P q) = (rid (ctx_of q) \<noteq> r)"
      using mem[OF q] Pp Pr by auto
  qed simp
  with take_first_unique[OF one] show ?thesis
    by (simp add: deliver_def)
qed

lemma take_first_besides:
  "(\<And>q. P q \<Longrightarrow> rid (ctx_of q) = r) \<Longrightarrow> take_first P (ops_besides r s) = None"
  by (rule take_first_none) (auto simp: ops_besides_def filter_empty_conv)

lemma deliver_besides:
  assumes Pr: "\<And>q. P q \<Longrightarrow> rid (ctx_of q) = r"
    and ps: "pending s' = ops_besides r s @ qs"
    and tf: "take_first P qs = Some (p, rest)"
  shows "deliver P h s' = h p (s'\<lparr>pending := ops_besides r s @ rest\<rparr>)"
  using take_first_besides[of P r s, OF Pr] ps tf
  by (simp add: deliver_def take_first_append)

lemma is_op_rid: "is_op ks r q \<Longrightarrow> rid (ctx_of q) = r"
  by (simp add: is_op_def)

lemma timer_pred_rid:
  "(case q of PBody c cc armed \<Rightarrow> armed \<and> rid c = r | _ \<Rightarrow> False) \<Longrightarrow> rid (ctx_of q) = r"
  by (cases q) simp_all

lemma on_stat_hit:
  "fs_stat fault (filename c) (files s) = Inr st \<Longrightarrow> isFile st \<Longrightarrow> 0 < fsize st \<Longrightarrow>
   clock s < mtime st \<Longrightarrow>
   on_stat c fault s = fetch_probe_cb c (Some (DateAt (atime st), DateAt (mtime st))) s"
  by (simp add: on_stat_def stat_cb_def probe_continue_def)

lemmas ex_defs = ex_petra_def ex_url_def ex_ctx_def ex_file_def ex_stats_def ex_state_def
  filename_def filename_of_def petra_cachePath_def path_join_def partialContentFilename_def

lemma ex_filename: "filename (ex_ctx r) = ex_file"
  by (simp add: ex_defs)

lemma ex_woken: "woken ex_file (ex_state p fs) = [AProceed 1]"
  by (simp add: woken_def next_waiter_def proceed_ctx_def ex_state_def ex_ctx_def)

declare decimal_digits.simps [simp del]

lemma ops_of_update [simp]:
  "ops_of r (s\<lparr>files := fs\<rparr>) = ops_of r s"
  "ops_of r (s\<lparr>trace := tr\<rparr>) = ops_of r s"
  "ops_of r (s\<lparr>clock := t\<rparr>) = ops_of r s"
  "ops_of r (s\<lparr>lockedFiles := lt\<rparr>) = ops_of r s"
  "ops_of r (s\<lparr>next_rid := n\<rparr>) = ops_of r s"
  "ops_besides r (s\<lparr>files := fs\<rparr>) = ops_besides r s"
  "ops_besides r (s\<lparr>trace := tr\<rparr>) = ops_besides r s"
  "ops_besides r (s\<lparr>clock := t\<rparr>) = ops_besides r s"
  "ops_besides r (s\<lparr>lockedFiles := lt\<rparr>) = ops_besides r s"
  "ops_besides r (s\<lparr>next_rid := n\<rparr>) = ops_besides r s"
  by (simp_all add: ops_of_def ops_besides_def)

lemma ops_of_besides [simp]:
  "ops_of r (s\<lparr>pending := ops_besides r s0 @ qs\<rparr>) = filter (\<lambda>q. rid (ctx_of q) = r) qs"
  "ops_besides r (s\<lparr>pending := ops_besides r s0 @ qs\<rparr>)
     = ops_besides r s0 @ filter (\<lambda>q. rid (ctx_of q) \<noteq> r) qs"
  by (simp_all add: ops_of_def ops_besides_def)

lemma step_GetError:
  assumes sole: "ops_of r s = [PGet c]"
  shows "step (GetError r errcode msg) s
     = s\<lparr>pending := ops_besides r s @ [PUnlinkPart c (errorWithCode msg (transport_code errcode))]\<rparr>"
proof -
  from ops_of_rid[OF sole] have r: "rid c = r" by simp
  show ?thesis
    using deliver_sole[OF sole, of "is_op [KGet] r"] r
    by (simp add: is_op_def on_get_error_def onError_def start_def)
qed

lemma step_GetResponse:
  assumes sole: "ops_of r s = [PGet c]"
  shows "step (GetResponse r statusCode contentType cacheControl) s
     = on_get_response c statusCode contentType cacheControl (s\<lparr>pending := ops_besides r s\<rparr>)"
proof -
  from ops_of_rid[OF sole] have r: "rid c = r" by simp
  show ?thesis
    using deliver_sole[OF sole, of "is_op [KGet] r"] r
    by (simp add: is_op_def)
qed

lemma on_get_response_status:
  "statusCode \<noteq> 200 \<Longrightarrow>
   on_get_response c statusCode contentType cacheControl s
     = s\<lparr>pending := pending s @ [PUnlinkPart c
             (errorWithCode (''status code '' @ show_number statusCode) statusCode)],
         trace := trace s @ [AAbort (rid c)]\<rparr>"
  by (simp add: on_get_response_def onError_def start_def emit_def)

lemma on_get_response_media:
  "mediaTypes (inst c) \<noteq> [] \<Longrightarrow> \<not> includes_header (mediaTypes (inst c)) contentType \<Longrightarrow>
   on_get_response c 200 contentType cacheControl s
     = s\<lparr>pending := pending s @ [PUnlinkPart c
             (errorWithCode (''unsupported media-type '' @ show_header contentType) 415)],
         trace := trace s @ [AAbort (rid c)]\<rparr>"
  by (simp add: on_get_response_def onError_def start_def emit_def)

lemma on_get_response_ok:
  "mediaTypes (inst c) = [] \<or> includes_header (mediaTypes (inst c)) contentType \<Longrightarrow>
   on_get_response c 200 contentType cacheControl s
     = s\<lparr>files := fs_createWriteStream (clock s) (partialContentFilename c) (files s),
         pending := pending s @ [PBody c cacheControl (0 < responseTimeout (inst c))]\<rparr>"
  by (auto simp add: on_get_response_def onError_def start_def emit_def)

lemma step_TimerFires:
  assumes sole: "ops_of r s = [PBody c cc True]"
  shows "step (TimerFires r) s
     = s\<lparr>pending := ops_besides r s @ [PAborted c cc, PUnlinkPart c
             (errorWithCode (''response timeout of '' @ show_number (responseTimeout (inst c)) @ ''ms'') 504)],
         trace := trace s @ [AAbort (rid c)]\<rparr>"
proof -
  from ops_of_rid[OF sole] have r: "rid c = r" by simp
  show ?thesis
    using deliver_sole[OF sole, of "\<lambda>p. case p of PBody c cc armed \<Rightarrow> armed \<and> rid c = r | _ \<Rightarrow> False"] r
    by (simp add: timer_pred_rid on_timer_def onError_def start_def emit_def)
qed

lemma step_ResEnd:
  assumes sole: "ops_of r s = [PBody c cc armed]"
  shows "step (ResEnd r) s = s\<lparr>pending := ops_besides r s @ [PClose c cc]\<rparr>"
proof -
  from ops_of_rid[OF sole] have r: "rid c = r" by simp
  show ?thesis
    using deliver_sole[OF sole, of "is_op [KBody, KAborted] r"] r
    by (simp add: is_op_def on_res_end_def start_def)
qed

lemma step_ResError:
  assumes sole: "ops_of r s = [PBody c cc armed]"
  shows "step (ResError r err) s = s\<lparr>pending := ops_besides r s @ [PUnlinkPart c err]\<rparr>"
proof -
  from ops_of_rid[OF sole] have r: "rid c = r" by simp
  show ?thesis
    using deliver_sole[OF sole, of "is_op [KBody, KAborted] r"] r
    by (simp add: is_op_def on_res_error_def onError_def start_def)
qed

lemma step_FileClose:
  assumes sole: "ops_of r s = [PClose c cc]"
  shows "step (FileClose r bytes) s
     = s\<lparr>files := fs_written (clock s) (partialContentFilename c) bytes (files s),
         pending := ops_besides r s @ [PRename c cc]\<rparr>"
proof -
  from ops_of_rid[OF sole] have r: "rid c = r" by simp
  show ?thesis
    using deliver_sole[OF sole, of "is_op [KClose] r"] r
    by (simp add: is_op_def on_file_close_def start_def)
qed

lemma step_RenameDone:
  assumes sole: "ops_of r s = [PRename c cc]"
  shows "step (RenameDone r fault) s = on_rename c cc fault (s\<lparr>pending := ops_besides r s\<rparr>)"
proof -
  from ops_of_rid[OF sole] have r: "rid c = r" by simp
  show ?thesis
    using deliver_sole[OF sole, of "is_op [KRename] r"] r
    by (simp add: is_op_def)
qed

lemma step_UtimesDone:
  assumes sole: "ops_of r s = [PUtimes c a m]"
  shows "step (UtimesDone r fault) s = on_utimes c a m fault (s\<lparr>pending := ops_besides r s\<rparr>)"
proof -
  from ops_of_rid[OF sole] have r: "rid c = r" by simp
  show ?thesis
    using deliver_sole[OF sole, of "is_op [KUtimes] r"] r
    by (simp add: is_op_def)
qed

lemma step_UnlinkPartDone:
  assumes sole: "ops_of r s = [PUnlinkPart c err]"
  shows "step (UnlinkPartDone r fault) s = on_unlink_part c err fault (s\<lparr>pending := ops_besides r s\<rparr>)"
proof -
  from ops_of_rid[OF sole] have r: "rid c = r" by simp
  show ?thesis
    using deliver_sole[OF sole, of "is_op [KUnlinkPart] r"] r
    by (simp add: is_op_def)
qed



lemma step_UnlinkPurgeDone:
  assumes sole: "ops_of r s = [PUnlinkPurge c]"
  shows "step (UnlinkPurgeDone r fault) s = on_unlink_purge c fault (s\<lparr>pending := ops_besides r s\<rparr>)"
proof -
  from ops_of_rid[OF sole] have r: "rid c = r" by simp
  show ?thesis
    using deliver_sole[OF sole, of "is_op [KUnlinkPurge] r"] r
    by (simp add: is_op_def)
qed

declare step.simps [simp del]

lemma dones_woken [simp]: "dones r (woken file s) = []"
  by (simp add: woken_def split: option.splits)

lemma part_neq_filename [simp]:
  "partialContentFilename c \<noteq> filename c" "filename c \<noteq> partialContentFilename c"
  by (simp_all add: partialContentFilename_def)

lemma on_rename_ok:
  "files s (partialContentFilename c) = Some st \<Longrightarrow>
   on_rename c cc None s
     = s\<lparr>files := ((files s)(partialContentFilename c := None))(filename c \<mapsto> st),
         pending := pending s @ [PUtimes c (DateAt (clock s)) (expiry c cc (clock s))]\<rparr>"
  by (simp add: on_rename_def fs_rename_def start_def Let_def expiry_def)

lemma on_rename_fault:
  "on_rename c cc (Some e) s
     = s\<lparr>pending := pending s @ [PUnlinkPart c
           (newError (''could not rename '' @ partialContentFilename c @ '' as '' @ filename c
                        @ '' '' @ e))]\<rparr>"
  by (simp add: on_rename_def fs_rename_def start_def onError_def)


lemma on_utimes_fault:
  "on_utimes c a m (Some e) s
     = s\<lparr>pending := pending s @ [PUnlinkPart c
           (newError (''could not update '' @ filename c @ '' '' @ e))]\<rparr>"
  by (simp add: on_utimes_def fs_utimes_def start_def onError_def)

lemma ex_part: "partialContentFilename (ex_ctx r) = ex_file @ ''.part''"
  by (simp add: partialContentFilename_def ex_filename)


lemma to_double_0 [simp]: "to_double 0 = Num 0"
  by (simp add: to_double_def)



lemma ex_ops_of: "ops_of r (ex_state p fs) = (if rid (ctx_of p) = r then [p] else [])"
  by (simp add: ops_of_def ex_state_def)

lemma on_unlink_part_fields:
  "trace (on_unlink_part c err fault s)
     = trace s
         @ [ADebug (''Upstream '' @ url c @ '' failed: '' @ message err),
            ADone (rid c) (Failure (err\<lparr>message := ''Upstream '' @ url c @ '' failed: '' @ message err\<rparr>)),
            AUnlock (filename c)]
         @ woken (filename c) s"
  "files (on_unlink_part c err fault s) = snd (fs_unlink fault (partialContentFilename c) (files s))"
  "pending (on_unlink_part c err fault s) = pending s @ started (filename c) s"
  by (simp_all add: on_unlink_part_def fetch_upstream_cb_fields split: prod.splits)

lemma dones_on_unlink_part:
  "dones (rid c) (trace (on_unlink_part c err fault s))
     = dones (rid c) (trace s)
         @ [Failure (err\<lparr>message := ''Upstream '' @ url c @ '' failed: '' @ message err\<rparr>)]"
  by (simp add: on_unlink_part_fields)

lemma step_UnlinkPartDone_aborted:
  assumes ps: "pending s' = ops_besides r s @ [PAborted c cc, PUnlinkPart c err]" and r: "rid c = r"
  shows "step (UnlinkPartDone r fault) s'
           = on_unlink_part c err fault (s'\<lparr>pending := ops_besides r s @ [PAborted c cc]\<rparr>)"
proof -
  have tf: "take_first (is_op [KUnlinkPart] r) [PAborted c cc, PUnlinkPart c err]
              = Some (PUnlinkPart c err, [PAborted c cc])"
    using r by (simp add: is_op_def)
  have Pr: "\<And>q. is_op [KUnlinkPart] r q \<Longrightarrow> rid (ctx_of q) = r"
    by (rule is_op_rid)
  show ?thesis
    using deliver_besides[of "is_op [KUnlinkPart] r" r s', OF Pr ps tf]
    by (simp add: step.simps)
qed

lemma scen_transport:
  assumes sole: "ops_of r s = [PGet c]"
  shows "run [GetError r errcode msg, UnlinkPartDone r fault] s
           = on_unlink_part c (errorWithCode msg (transport_code errcode)) fault
               (s\<lparr>pending := ops_besides r s\<rparr>)"
proof -
  from ops_of_rid[OF sole] have r: "rid c = r" by simp
  let ?s1 = "step (GetError r errcode msg) s"
  have "ops_of r ?s1 = [PUnlinkPart c (errorWithCode msg (transport_code errcode))]"
    by (simp add: step_GetError[OF sole] r)
  from step_UnlinkPartDone[OF this] show ?thesis
    by (simp add: step_GetError[OF sole] r)
qed

lemma scen_status:
  assumes sole: "ops_of r s = [PGet c]" and st: "statusCode \<noteq> 200"
  shows "run [GetResponse r statusCode ct cc, UnlinkPartDone r fault] s
           = on_unlink_part c (errorWithCode (''status code '' @ show_number statusCode) statusCode) fault
               (s\<lparr>pending := ops_besides r s, trace := trace s @ [AAbort r]\<rparr>)"
proof -
  from ops_of_rid[OF sole] have r: "rid c = r" by simp
  let ?s1 = "step (GetResponse r statusCode ct cc) s"
  have s1: "?s1 = s\<lparr>pending := ops_besides r s @ [PUnlinkPart c
               (errorWithCode (''status code '' @ show_number statusCode) statusCode)],
             trace := trace s @ [AAbort r]\<rparr>"
    by (simp add: step_GetResponse[OF sole] on_get_response_status[OF st] r)
  have "ops_of r ?s1 = [PUnlinkPart c (errorWithCode (''status code '' @ show_number statusCode) statusCode)]"
    by (simp add: s1 r)
  from step_UnlinkPartDone[OF this] show ?thesis
    by (simp add: s1 r)
qed

lemma scen_media:
  assumes sole: "ops_of r s = [PGet c]"
    and mt: "mediaTypes (inst c) \<noteq> []" "\<not> includes_header (mediaTypes (inst c)) ct"
  shows "run [GetResponse r 200 ct cc, UnlinkPartDone r fault] s
           = on_unlink_part c (errorWithCode (''unsupported media-type '' @ show_header ct) 415) fault
               (s\<lparr>pending := ops_besides r s, trace := trace s @ [AAbort r]\<rparr>)"
proof -
  from ops_of_rid[OF sole] have r: "rid c = r" by simp
  let ?s1 = "step (GetResponse r 200 ct cc) s"
  have s1: "?s1 = s\<lparr>pending := ops_besides r s @ [PUnlinkPart c
               (errorWithCode (''unsupported media-type '' @ show_header ct) 415)],
             trace := trace s @ [AAbort r]\<rparr>"
    by (simp add: step_GetResponse[OF sole] on_get_response_media[OF mt] r)
  have "ops_of r ?s1 = [PUnlinkPart c (errorWithCode (''unsupported media-type '' @ show_header ct) 415)]"
    by (simp add: s1 r)
  from step_UnlinkPartDone[OF this] show ?thesis
    by (simp add: s1 r)
qed

lemma scen_accept:
  assumes sole: "ops_of r s = [PGet c]"
    and ok: "mediaTypes (inst c) = [] \<or> includes_header (mediaTypes (inst c)) ct"
  shows "step (GetResponse r 200 ct cc) s
           = s\<lparr>files := fs_createWriteStream (clock s) (partialContentFilename c) (files s),
               pending := ops_besides r s @ [PBody c cc (0 < responseTimeout (inst c))]\<rparr>"
  by (simp add: step_GetResponse[OF sole] on_get_response_ok[OF ok])

lemma scen_timeout:
  assumes sole: "ops_of r s = [PGet c]"
    and ok: "mediaTypes (inst c) = [] \<or> includes_header (mediaTypes (inst c)) ct"
    and armed: "0 < responseTimeout (inst c)"
  shows "run [GetResponse r 200 ct cc, TimerFires r, UnlinkPartDone r fault] s
           = on_unlink_part c
               (errorWithCode (''response timeout of '' @ show_number (responseTimeout (inst c)) @ ''ms'') 504)
               fault
               (s\<lparr>files := fs_createWriteStream (clock s) (partialContentFilename c) (files s),
                  pending := ops_besides r s @ [PAborted c cc],
                  trace := trace s @ [AAbort r]\<rparr>)"
proof -
  from ops_of_rid[OF sole] have r: "rid c = r" by simp
  let ?e = "errorWithCode (''response timeout of '' @ show_number (responseTimeout (inst c)) @ ''ms'') 504"
  let ?S1 = "s\<lparr>files := fs_createWriteStream (clock s) (partialContentFilename c) (files s),
               pending := ops_besides r s @ [PBody c cc True]\<rparr>"
  let ?S2 = "s\<lparr>files := fs_createWriteStream (clock s) (partialContentFilename c) (files s),
               pending := ops_besides r s @ [PAborted c cc, PUnlinkPart c ?e],
               trace := trace s @ [AAbort r]\<rparr>"
  have s1: "step (GetResponse r 200 ct cc) s = ?S1"
    using scen_accept[OF sole ok, of cc] armed by simp
  have o1: "ops_of r ?S1 = [PBody c cc True]" by (simp add: r)
  have s2: "step (TimerFires r) ?S1 = ?S2"
    using step_TimerFires[OF o1] by (simp add: r)
  have p2: "pending ?S2 = ops_besides r s @ [PAborted c cc, PUnlinkPart c ?e]" by simp
  have s3: "step (UnlinkPartDone r fault) ?S2
              = on_unlink_part c ?e fault (?S2\<lparr>pending := ops_besides r s @ [PAborted c cc]\<rparr>)"
    by (rule step_UnlinkPartDone_aborted[OF p2 r])
  have "run [GetResponse r 200 ct cc, TimerFires r, UnlinkPartDone r fault] s
          = step (UnlinkPartDone r fault) (step (TimerFires r) (step (GetResponse r 200 ct cc) s))"
    by simp
  also have "\<dots> = step (UnlinkPartDone r fault) ?S2" by (simp only: s1 s2)
  also note s3
  finally show ?thesis by simp
qed

lemma scen_res_error:
  assumes sole: "ops_of r s = [PGet c]"
    and ok: "mediaTypes (inst c) = [] \<or> includes_header (mediaTypes (inst c)) ct"
  shows "run [GetResponse r 200 ct cc, ResError r err, UnlinkPartDone r fault] s
           = on_unlink_part c err fault
               (s\<lparr>files := fs_createWriteStream (clock s) (partialContentFilename c) (files s),
                  pending := ops_besides r s\<rparr>)"
proof -
  from ops_of_rid[OF sole] have r: "rid c = r" by simp
  let ?S1 = "s\<lparr>files := fs_createWriteStream (clock s) (partialContentFilename c) (files s),
               pending := ops_besides r s @ [PBody c cc (0 < responseTimeout (inst c))]\<rparr>"
  let ?S2 = "s\<lparr>files := fs_createWriteStream (clock s) (partialContentFilename c) (files s),
               pending := ops_besides r s @ [PUnlinkPart c err]\<rparr>"
  have s1: "step (GetResponse r 200 ct cc) s = ?S1"
    by (rule scen_accept[OF sole ok])
  have o1: "ops_of r ?S1 = [PBody c cc (0 < responseTimeout (inst c))]" by (simp add: r)
  have s2: "step (ResError r err) ?S1 = ?S2"
    using step_ResError[OF o1] by (simp add: r)
  have o2: "ops_of r ?S2 = [PUnlinkPart c err]" by (simp add: r)
  have s3: "step (UnlinkPartDone r fault) ?S2
              = on_unlink_part c err fault (?S2\<lparr>pending := ops_besides r ?S2\<rparr>)"
    by (rule step_UnlinkPartDone[OF o2])
  have "run [GetResponse r 200 ct cc, ResError r err, UnlinkPartDone r fault] s
          = step (UnlinkPartDone r fault) (step (ResError r err) (step (GetResponse r 200 ct cc) s))"
    by simp
  also have "\<dots> = step (UnlinkPartDone r fault) ?S2" by (simp only: s1 s2)
  also note s3
  finally show ?thesis by (simp add: r)
qed

lemma scen_download:
  assumes sole: "ops_of r s = [PGet c]"
    and ok: "mediaTypes (inst c) = [] \<or> includes_header (mediaTypes (inst c)) ct"
  shows "run [GetResponse r 200 ct cc, ResEnd r, FileClose r bytes] s
           = s\<lparr>files := (files s)(partialContentFilename c \<mapsto>
                    \<lparr>isFile = True, fsize = bytes, atime = clock s, mtime = clock s\<rparr>),
               pending := ops_besides r s @ [PRename c cc]\<rparr>"
proof -
  from ops_of_rid[OF sole] have r: "rid c = r" by simp
  let ?S1 = "s\<lparr>files := fs_createWriteStream (clock s) (partialContentFilename c) (files s),
               pending := ops_besides r s @ [PBody c cc (0 < responseTimeout (inst c))]\<rparr>"
  let ?S2 = "s\<lparr>files := fs_createWriteStream (clock s) (partialContentFilename c) (files s),
               pending := ops_besides r s @ [PClose c cc]\<rparr>"
  have s1: "step (GetResponse r 200 ct cc) s = ?S1"
    by (rule scen_accept[OF sole ok])
  have o1: "ops_of r ?S1 = [PBody c cc (0 < responseTimeout (inst c))]" by (simp add: r)
  have s2: "step (ResEnd r) ?S1 = ?S2"
    using step_ResEnd[OF o1] by (simp add: r)
  have o2: "ops_of r ?S2 = [PClose c cc]" by (simp add: r)
  note s3 = step_FileClose[OF o2, of bytes]
  have "run [GetResponse r 200 ct cc, ResEnd r, FileClose r bytes] s
          = step (FileClose r bytes) (step (ResEnd r) (step (GetResponse r 200 ct cc) s))"
    by simp
  also have "\<dots> = step (FileClose r bytes) ?S2" by (simp only: s1 s2)
  also note s3
  finally show ?thesis by (simp add: r fs_written_def fs_createWriteStream_def)
qed

lemma scen_rename_fail:
  assumes sole: "ops_of r s = [PRename c cc]"
  shows "run [RenameDone r (Some e), UnlinkPartDone r fault] s
           = on_unlink_part c
               (newError (''could not rename '' @ partialContentFilename c @ '' as '' @ filename c
                           @ '' '' @ e))
               fault (s\<lparr>pending := ops_besides r s\<rparr>)"
proof -
  from ops_of_rid[OF sole] have r: "rid c = r" by simp
  let ?e = "newError (''could not rename '' @ partialContentFilename c @ '' as '' @ filename c @ '' '' @ e)"
  let ?S1 = "s\<lparr>pending := ops_besides r s @ [PUnlinkPart c ?e]\<rparr>"
  have s1: "step (RenameDone r (Some e)) s = ?S1"
    by (simp add: step_RenameDone[OF sole] on_rename_fault)
  have o1: "ops_of r ?S1 = [PUnlinkPart c ?e]" by (simp add: r)
  note s2 = step_UnlinkPartDone[OF o1, of fault]
  have "run [RenameDone r (Some e), UnlinkPartDone r fault] s
          = step (UnlinkPartDone r fault) (step (RenameDone r (Some e)) s)"
    by simp
  also have "\<dots> = step (UnlinkPartDone r fault) ?S1" by (simp only: s1)
  also note s2
  finally show ?thesis by (simp add: r)
qed

lemma scen_utimes_fail:
  assumes sole: "ops_of r s = [PUtimes c a m]"
  shows "run [UtimesDone r (Some e), UnlinkPartDone r fault] s
           = on_unlink_part c (newError (''could not update '' @ filename c @ '' '' @ e))
               fault (s\<lparr>pending := ops_besides r s\<rparr>)"
proof -
  from ops_of_rid[OF sole] have r: "rid c = r" by simp
  let ?e = "newError (''could not update '' @ filename c @ '' '' @ e)"
  let ?S1 = "s\<lparr>pending := ops_besides r s @ [PUnlinkPart c ?e]\<rparr>"
  have s1: "step (UtimesDone r (Some e)) s = ?S1"
    by (simp add: step_UtimesDone[OF sole] on_utimes_fault)
  have o1: "ops_of r ?S1 = [PUnlinkPart c ?e]" by (simp add: r)
  note s2 = step_UnlinkPartDone[OF o1, of fault]
  have "run [UtimesDone r (Some e), UnlinkPartDone r fault] s
          = step (UnlinkPartDone r fault) (step (UtimesDone r (Some e)) s)"
    by simp
  also have "\<dots> = step (UnlinkPartDone r fault) ?S1" by (simp only: s1)
  also note s2
  finally show ?thesis by (simp add: r)
qed

lemma transport_code_eq:
  "transport_code errcode
     = (if errcode \<in> {Some ''ECONNREFUSED'', Some ''ETIMEDOUT'', Some ''ESOCKETTIMEDOUT''}
        then 504 else 502)"
  by (cases errcode) (auto simp: transport_code_def)

lemma includes_header_eq: "includes_header xs v \<longleftrightarrow> v \<in> Some ` set xs"
  by (cases v) (auto simp: includes_header_def)

lemma ex_show_numbers: "show_number 404 = ''404''" "show_number 100 = ''100''"
  by code_simp+

lemma ex_ctx_fields [simp]:
  "rid (ex_ctx r) = r" "url (ex_ctx r) = ex_url" "inst (ex_ctx r) = ex_petra"
  "rid (ex_ctx_png r) = r" "url (ex_ctx_png r) = ex_url" "inst (ex_ctx_png r) = ex_petra_png"
  by (simp_all add: ex_ctx_def ex_ctx_png_def)

lemma ex_petra_fields [simp]:
  "mediaTypes ex_petra = []" "responseTimeout ex_petra = 100" "minimumTtl ex_petra = Num 10"
  "mediaTypes ex_petra_png = [''image/png'']" "responseTimeout ex_petra_png = 100"
  by (simp_all add: ex_petra_def ex_petra_png_def)

lemma ex_state_fields [simp]:
  "trace (ex_state p fs) = []" "files (ex_state p fs) = fs" "clock (ex_state p fs) = 100"
  "pending (ex_state p fs) = [p]"
  by (simp_all add: ex_state_def)

lemma run_append: "run (xs @ ys) s = run ys (run xs s)"
  by (induction xs arbitrary: s) simp_all

lemma fs_unlink_other [simp]: "f \<noteq> p \<Longrightarrow> snd (fs_unlink fault p fs) f = fs f"
  by (simp add: fs_unlink_def split: option.splits)

lemma fs_unlink_gone [simp]: "snd (fs_unlink None p fs) p = None"
  by (simp add: fs_unlink_def split: option.splits)

lemma fs_unlink_absent [simp]: "fs p = None \<Longrightarrow> snd (fs_unlink fault p fs) p = None"
  by (simp add: fs_unlink_def split: option.splits)

lemma fs_createWriteStream_other [simp]:
  "f \<noteq> p \<Longrightarrow> fs_createWriteStream now p fs f = fs f"
  by (simp add: fs_createWriteStream_def)

lemma scen_rename_fail_full:
  assumes sole: "ops_of r s = [PGet c]"
    and ok: "mediaTypes (inst c) = [] \<or> includes_header (mediaTypes (inst c)) ct"
  shows "run [GetResponse r 200 ct cc, ResEnd r, FileClose r bytes, RenameDone r (Some e),
              UnlinkPartDone r fault] s
           = on_unlink_part c
               (newError (''could not rename '' @ partialContentFilename c @ '' as '' @ filename c
                           @ '' '' @ e))
               fault
               (s\<lparr>files := (files s)(partialContentFilename c \<mapsto>
                      \<lparr>isFile = True, fsize = bytes, atime = clock s, mtime = clock s\<rparr>),
                  pending := ops_besides r s\<rparr>)"
proof -
  from ops_of_rid[OF sole] have r: "rid c = r" by simp
  let ?S3 = "s\<lparr>files := (files s)(partialContentFilename c \<mapsto>
                    \<lparr>isFile = True, fsize = bytes, atime = clock s, mtime = clock s\<rparr>),
               pending := ops_besides r s @ [PRename c cc]\<rparr>"
  have o3: "ops_of r ?S3 = [PRename c cc]" by (simp add: r)
  have "run ([GetResponse r 200 ct cc, ResEnd r, FileClose r bytes]
             @ [RenameDone r (Some e), UnlinkPartDone r fault]) s
          = run [RenameDone r (Some e), UnlinkPartDone r fault] ?S3"
    unfolding run_append scen_download[OF sole ok] ..
  also note scen_rename_fail[OF o3]
  finally show ?thesis by (simp add: r)
qed

lemma scen_utimes_fail_full:
  assumes sole: "ops_of r s = [PGet c]"
    and ok: "mediaTypes (inst c) = [] \<or> includes_header (mediaTypes (inst c)) ct"
  shows "run [GetResponse r 200 ct cc, ResEnd r, FileClose r bytes, RenameDone r None,
              UtimesDone r (Some e), UnlinkPartDone r fault] s
           = on_unlink_part c (newError (''could not update '' @ filename c @ '' '' @ e)) fault
               (s\<lparr>files := ((files s)(partialContentFilename c := None))(filename c \<mapsto>
                      \<lparr>isFile = True, fsize = bytes, atime = clock s, mtime = clock s\<rparr>),
                  pending := ops_besides r s\<rparr>)"
proof -
  from ops_of_rid[OF sole] have r: "rid c = r" by simp
  let ?st = "\<lparr>isFile = True, fsize = bytes, atime = clock s, mtime = clock s\<rparr>"
  let ?S3 = "s\<lparr>files := (files s)(partialContentFilename c \<mapsto> ?st),
               pending := ops_besides r s @ [PRename c cc]\<rparr>"
  let ?a = "DateAt (clock s)"
  let ?m = "expiry c cc (clock s)"
  let ?S4 = "s\<lparr>files := ((files s)(partialContentFilename c := None))(filename c \<mapsto> ?st),
               pending := ops_besides r s @ [PUtimes c ?a ?m]\<rparr>"
  have o3: "ops_of r ?S3 = [PRename c cc]" by (simp add: r)
  have s4: "step (RenameDone r None) ?S3 = ?S4"
    unfolding step_RenameDone[OF o3]
    by (subst on_rename_ok[where st = ?st]) (simp_all add: r)
  have o4: "ops_of r ?S4 = [PUtimes c ?a ?m]" by (simp add: r)
  have "run ([GetResponse r 200 ct cc, ResEnd r, FileClose r bytes]
             @ [RenameDone r None] @ [UtimesDone r (Some e), UnlinkPartDone r fault]) s
          = run [UtimesDone r (Some e), UnlinkPartDone r fault] (step (RenameDone r None) ?S3)"
    unfolding run_append scen_download[OF sole ok] by simp
  also have "\<dots> = run [UtimesDone r (Some e), UnlinkPartDone r fault] ?S4"
    by (simp only: s4)
  also note scen_utimes_fail[OF o4]
  finally show ?thesis by (simp add: r)
qed

lemma step_CallPurge_free:
  assumes free: "lockedFiles s (filename_of this u) = None"
  shows "step (CallPurge this u) s
           = s\<lparr>lockedFiles := (lockedFiles s)(filename_of this u \<mapsto>
                    \<lparr>lastUpdated = clock s, onRelease = []\<rparr>),
               pending := pending s @ [PUnlinkPurge \<lparr>rid = next_rid s, inst = this, url = u\<rparr>],
               trace := trace s @ [AProceed (next_rid s)],
               next_rid := Suc (next_rid s)\<rparr>"
  using free
  by (simp add: step.simps purge_def locker_lock_def lock_def call_opt_def run_proceed_def
      filename_def start_def emit_def Let_def)

lemma step_CallPurge_held:
  assumes held: "lockedFiles s (filename_of this u) = Some e"
  shows "step (CallPurge this u) s
           = s\<lparr>lockedFiles := (lockedFiles s)(filename_of this u \<mapsto>
                    e\<lparr>onRelease := onRelease e
                         @ [PurgeProceed \<lparr>rid = next_rid s, inst = this, url = u\<rparr>]\<rparr>),
               next_rid := Suc (next_rid s)\<rparr>"
  using held
  by (simp add: step.simps purge_def locker_lock_def lock_def call_opt_def filename_def Let_def)

lemma ex_filename_of: "filename_of ex_petra ex_url = ex_file"
  using ex_filename[of 0] by (simp add: filename_def)

lemma step_Tick [simp]: "step (Tick t) s = s\<lparr>clock := t\<rparr>"
  by (simp add: step.simps)

lemma clock_fetch_upstream_cb [simp]: "clock (fetch_upstream_cb c r s) = clock s"
  by (cases r) (simp_all add: fetch_upstream_cb_def split: prod.splits)


lemma ex_next_waiter: "next_waiter ex_file (ex_state p fs) = Some (FetchProceed (ex_ctx 1))"
  by (simp add: next_waiter_def ex_state_def)

lemma deliver_take:
  "take_first P (pending s) = Some (p, rest) \<Longrightarrow> deliver P h s = h p (s\<lparr>pending := rest\<rparr>)"
  by (simp add: deliver_def)

lemma take_first_holds: "take_first P ps = Some (p, rest) \<Longrightarrow> P p"
  by (induction ps arbitrary: rest) (auto split: if_splits option.splits)

lemma locker_unlock_table:
  "lockedFiles (locker_unlock file s)
     = (lockedFiles s)(file :=
         (case lockedFiles s file of
            None \<Rightarrow> None
          | Some e \<Rightarrow>
              (case onRelease e of
                 [] \<Rightarrow> None
               | w # ws \<Rightarrow> Some \<lparr>lastUpdated = clock s, onRelease = ws\<rparr>)))"
  by (auto simp: unlock_def split: option.splits list.splits)
section \<open>The TTL parser: lemmas\<close>

lemma indexOf_from_ge: "indexOf_from s sub i = -1 \<or> i \<le> indexOf_from s sub i"
  by (induction s sub i rule: indexOf_from.induct) (auto split: if_splits)

lemma indexOf_from_none:
  "0 \<le> i \<Longrightarrow> indexOf_from s sub i = -1 \<longleftrightarrow> (\<forall>k\<le>length s. take (length sub) (drop k s) \<noteq> sub)"
proof (induction s sub i rule: indexOf_from.induct)
  case (1 sub i)
  then show ?case by auto
next
  case (2 c cs sub i)
  show ?case
  proof (cases "starts_with (c # cs) sub")
    case True
    then show ?thesis using 2 by (auto intro: exI[of _ 0])
  next
    case False
    have "(\<forall>k\<le>length (c # cs). take (length sub) (drop k (c # cs)) \<noteq> sub)
          \<longleftrightarrow> (\<forall>k\<le>length cs. take (length sub) (drop k cs) \<noteq> sub)"
      (is "?L \<longleftrightarrow> ?R")
    proof
      assume L: ?L
      show ?R
      proof (intro allI impI)
        fix k assume "k \<le> length cs"
        then have "Suc k \<le> length (c # cs)" by simp
        from L[rule_format, OF this] show "take (length sub) (drop k cs) \<noteq> sub" by simp
      qed
    next
      assume R: ?R
      show ?L
      proof (intro allI impI)
        fix k assume k: "k \<le> length (c # cs)"
        show "take (length sub) (drop k (c # cs)) \<noteq> sub"
        proof (cases k)
          case 0
          then show ?thesis using False by simp
        next
          case (Suc j)
          then show ?thesis using R k by simp
        qed
      qed
    qed
    then show ?thesis using 2 False by simp
  qed
qed

lemma indexOf_none_iff: "indexOf s sub = -1 \<longleftrightarrow> \<not> contains s sub"
  unfolding indexOf_def contains_def using indexOf_from_none[of 0 s sub] by auto


lemma matches_at_Cons_Suc: "matches_at key (c # cs) (Suc i) = matches_at key cs i"
  by (simp add: matches_at_def)

lemma matches_at_0:
  "matches_at key s 0 = (starts_with s key \<and> takeWhile is_digit (drop (length key) s) \<noteq> [])"
  by (cases "drop (length key) s") (auto simp: matches_at_def)

lemma matches_at_Nil: "\<not> matches_at key [] i"
  by (simp add: matches_at_def)

lemma match_digits_None_iff: "match_digits key s = None \<longleftrightarrow> (\<forall>i. \<not> matches_at key s i)"
proof (induction key s rule: match_digits.induct)
  case (1 key)
  then show ?case by (simp add: matches_at_Nil)
next
  case (2 key c cs)
  show ?case
  proof (cases "matches_at key (c # cs) 0")
    case True
    then have "match_digits key (c # cs) \<noteq> None"
      by (simp add: matches_at_0 Let_def)
    then show ?thesis using True by blast
  next
    case False
    then have eq: "match_digits key (c # cs) = match_digits key cs"
      by (auto simp: matches_at_0 Let_def)
    have "(\<forall>i. \<not> matches_at key (c # cs) i) \<longleftrightarrow> (\<forall>i. \<not> matches_at key cs i)"
    proof
      assume h: "\<forall>i. \<not> matches_at key (c # cs) i"
      show "\<forall>i. \<not> matches_at key cs i"
      proof
        fix i
        from h have "\<not> matches_at key (c # cs) (Suc i)" by blast
        then show "\<not> matches_at key cs i" by (simp add: matches_at_Cons_Suc)
      qed
    next
      assume h: "\<forall>i. \<not> matches_at key cs i"
      show "\<forall>i. \<not> matches_at key (c # cs) i"
      proof
        fix i
        show "\<not> matches_at key (c # cs) i"
          using False h by (cases i) (simp_all add: matches_at_Cons_Suc)
      qed
    qed
    moreover have "match_digits key cs = None \<longleftrightarrow> (\<forall>i. \<not> matches_at key cs i)"
      using 2 False by (auto simp: matches_at_0 Let_def)
    ultimately show ?thesis using eq by simp
  qed
qed

lemma first_match_iff:
  "first_match key s n \<longleftrightarrow> matches_at key s n \<and> (\<forall>i<n. \<not> matches_at key s i)"
  by (auto simp: first_match_def)

lemma matches_at_beyond: "length s \<le> i \<Longrightarrow> \<not> matches_at key s i"
  by (simp add: matches_at_def)

lemma no_match_iff: "no_match key s \<longleftrightarrow> (\<forall>i. \<not> matches_at key s i)"
proof
  assume h: "no_match key s"
  show "\<forall>i. \<not> matches_at key s i"
  proof
    fix i
    show "\<not> matches_at key s i"
    proof (cases "i < length s")
      case True
      then show ?thesis using h by (simp add: no_match_def)
    next
      case False
      then show ?thesis by (simp add: matches_at_beyond)
    qed
  qed
next
  assume "\<forall>i. \<not> matches_at key s i"
  then show "no_match key s" by (simp add: no_match_def)
qed

lemma match_digits_first:
  "first_match key s n \<Longrightarrow> match_digits key s = Some (digits_at s (n + length key))"
proof (induction key s arbitrary: n rule: match_digits.induct)
  case (1 key)
  then show ?case by (simp add: first_match_iff matches_at_Nil)
next
  case (2 key c cs)
  show ?case
  proof (cases n)
    case 0
    then have "matches_at key (c # cs) 0" using 2(2) by (simp add: first_match_iff)
    then show ?thesis using 0 by (simp add: matches_at_0 Let_def digits_at_def)
  next
    case (Suc m)
    then have no0: "\<not> matches_at key (c # cs) 0" using 2(2) by (simp add: first_match_iff)
    have fm: "first_match key cs m"
      unfolding first_match_iff
    proof (intro conjI allI impI)
      show "matches_at key cs m"
        using 2(2) Suc by (simp add: first_match_iff matches_at_Cons_Suc)
    next
      fix i assume "i < m"
      then have "Suc i < n" using Suc by simp
      then have "\<not> matches_at key (c # cs) (Suc i)" using 2(2) by (simp add: first_match_iff)
      then show "\<not> matches_at key cs i" by (simp add: matches_at_Cons_Suc)
    qed
    have "match_digits key (c # cs) = match_digits key cs"
      using no0 by (auto simp: matches_at_0 Let_def)
    also have "\<dots> = Some (digits_at cs (m + length key))"
      using 2(1)[OF _ _ fm] no0 by (auto simp: matches_at_0 Let_def)
    finally show ?thesis using Suc by (simp add: digits_at_def)
  qed
qed

lemma fold_digits_snoc:
  "foldl (\<lambda>n c. 10 * n + digit_val c) 0 (ds @ [c])
     = 10 * foldl (\<lambda>n c. 10 * n + digit_val c) 0 ds + digit_val c"
  by simp

lemma fold_digits_decimal: "foldl (\<lambda>n c. 10 * n + digit_val c) 0 ds = decimal_value ds"
proof (induction ds rule: rev_induct)
  case Nil
  then show ?case by (simp add: decimal_value_def)
next
  case (snoc c ds)
  have "decimal_value (ds @ [c]) = 10 * decimal_value ds + digit_val c"
  proof -
    have "(\<Sum>i<length ds. digit_val ((ds @ [c]) ! i) * 10 ^ (length ds - i))
          = (\<Sum>i<length ds. 10 * (digit_val (ds ! i) * 10 ^ (length ds - 1 - i)))"
    proof (rule sum.cong)
      fix i assume "i \<in> {..<length ds}"
      then have i: "i < length ds" by simp
      then have "length ds - i = Suc (length ds - 1 - i)" by simp
      then show "digit_val ((ds @ [c]) ! i) * 10 ^ (length ds - i)
                 = 10 * (digit_val (ds ! i) * 10 ^ (length ds - 1 - i))"
        using i by (simp add: nth_append)
    qed simp
    then show ?thesis
      by (simp add: decimal_value_def sum_distrib_left)
  qed
  then show ?case using snoc by (simp only: fold_digits_snoc)
qed

lemma parseInt10_decimal: "parseInt10 ds = to_double (of_int (decimal_value ds))"
  by (simp only: parseInt10_def fold_digits_decimal)

lemma digit_val_nonneg: "is_digit c \<Longrightarrow> 0 \<le> digit_val c"
  by (auto simp: is_digit_def digit_val_def)

lemma decimal_value_nonneg: "\<forall>c\<in>set ds. is_digit c \<Longrightarrow> 0 \<le> decimal_value ds"
proof (induction ds rule: rev_induct)
  case Nil
  then show ?case by (simp add: decimal_value_def)
next
  case (snoc c ds)
  then have "0 \<le> decimal_value ds" "0 \<le> digit_val c" by (simp_all add: digit_val_nonneg)
  then have "0 \<le> 10 * decimal_value ds + digit_val c" by simp
  then show ?case
    unfolding fold_digits_decimal[symmetric] fold_digits_snoc .
qed

lemma match_digits_digits: "match_digits key s = Some ds \<Longrightarrow> \<forall>c\<in>set ds. is_digit c"
proof (induction key s rule: match_digits.induct)
  case (1 key)
  then show ?case by simp
next
  case (2 key c cs)
  then show ?case
    by (auto simp: Let_def split: if_splits dest: set_takeWhileD)
qed

lemma parseInt10_natural:
  assumes "\<forall>c\<in>set ds. is_digit c"
  shows "(\<exists>j\<ge>0. parseInt10 ds = Num (of_int j)) \<or> parseInt10 ds = PosInf"
  unfolding parseInt10_decimal
  by (rule to_double_of_nonneg_int) (rule decimal_value_nonneg[OF assms])

lemma ttl_natural:
  "(\<exists>j\<ge>0. ttlFromCacheControlHeader v = Num (of_int j)) \<or> ttlFromCacheControlHeader v = PosInf"
proof -
  have zero: "\<exists>j\<ge>0. Num 0 = Num (rat_of_int j)" by (rule exI[of _ 0]) simp
  show ?thesis
  proof (cases v)
    case (JStr s)
    show ?thesis
    proof (cases "indexOf s ''no-cache'' = -1 \<and> indexOf s ''private'' = -1")
      case False
      then have "ttlFromCacheControlHeader v = Num 0"
        by (auto simp: JStr ttlFromCacheControlHeader_def)
      with zero show ?thesis by simp
    next
      case True
      show ?thesis
      proof (cases "match_digits ''s-maxage='' s")
        case (Some ds)
        then have "ttlFromCacheControlHeader v = parseInt10 ds"
          using True by (simp add: JStr ttlFromCacheControlHeader_def)
        with parseInt10_natural[OF match_digits_digits[OF Some]] show ?thesis by simp
      next
        case None
        show ?thesis
        proof (cases "match_digits ''max-age='' s")
          case (Some ds)
          then have "ttlFromCacheControlHeader v = parseInt10 ds"
            using True None by (simp add: JStr ttlFromCacheControlHeader_def)
          with parseInt10_natural[OF match_digits_digits[OF Some]] show ?thesis by simp
        next
          case None2: None
          then have "ttlFromCacheControlHeader v = Num 0"
            using True None by (simp add: JStr ttlFromCacheControlHeader_def)
          with zero show ?thesis by simp
        qed
      qed
    qed
  qed (use zero in \<open>simp_all add: ttlFromCacheControlHeader_def\<close>)
qed

text \<open>
  C3, as amended. \<open>ttlFromCacheControlHeader\<close> returns 0 for a value that is not a string
  and for a string in which \<open>no-cache\<close> or \<open>private\<close> occurs. Otherwise it returns the
  JavaScript number of the digits of the leftmost match of \<open>s-maxage=[0-9]+\<close> when there
  is one (whatever \<open>max-age\<close> says), else the number of the digits of the leftmost match
  of \<open>max-age=[0-9]+\<close> when there is one, else 0. The number of a digit string that
  denotes the integer \<open>N\<close> is the double nearest to \<open>N\<close>: \<open>N\<close> itself up to \<open>2^53\<close>,
  and \<open>Infinity\<close> from \<open>2^1024\<close> on. The result is a natural number or \<open>Infinity\<close>.
\<close>

theorem ttlFromCacheControlHeader_spec:
  "((\<forall>t. v \<noteq> JStr t) \<longrightarrow> ttlFromCacheControlHeader v = Num 0) \<and>
   (contains s ''no-cache'' \<or> contains s ''private'' \<longrightarrow>
      ttlFromCacheControlHeader (JStr s) = Num 0) \<and>
   (\<not> contains s ''no-cache'' \<and> \<not> contains s ''private'' \<longrightarrow>
      (first_match ''s-maxage='' s n \<longrightarrow>
         ttlFromCacheControlHeader (JStr s)
           = to_double (of_int (decimal_value (digits_at s (n + 9))))) \<and>
      (no_match ''s-maxage='' s \<and> first_match ''max-age='' s m \<longrightarrow>
         ttlFromCacheControlHeader (JStr s)
           = to_double (of_int (decimal_value (digits_at s (m + 8))))) \<and>
      (no_match ''s-maxage='' s \<and> no_match ''max-age='' s \<longrightarrow>
         ttlFromCacheControlHeader (JStr s) = Num 0)) \<and>
   (0 \<le> N \<and> N \<le> 2 ^ 53 \<longrightarrow> to_double (of_int N) = Num (of_int N)) \<and>
   (2 ^ 1024 \<le> N \<longrightarrow> to_double (of_int N) = PosInf) \<and>
   ((\<exists>j\<ge>0. ttlFromCacheControlHeader v = Num (of_int j)) \<or>
    ttlFromCacheControlHeader v = PosInf)"
proof (intro conjI impI)
  assume "\<forall>t. v \<noteq> JStr t"
  then show "ttlFromCacheControlHeader v = Num 0"
    by (cases v) (simp_all add: ttlFromCacheControlHeader_def)
next
  assume "contains s ''no-cache'' \<or> contains s ''private''"
  then have "indexOf s ''no-cache'' \<noteq> -1 \<or> indexOf s ''private'' \<noteq> -1"
    by (simp add: indexOf_none_iff)
  then show "ttlFromCacheControlHeader (JStr s) = Num 0"
    by (auto simp: ttlFromCacheControlHeader_def)
next
  assume c: "\<not> contains s ''no-cache'' \<and> \<not> contains s ''private''"
    and f: "first_match ''s-maxage='' s n"
  from c have i: "indexOf s ''no-cache'' = -1 \<and> indexOf s ''private'' = -1"
    by (simp add: indexOf_none_iff)
  from match_digits_first[OF f]
  have "match_digits ''s-maxage='' s = Some (digits_at s (n + 9))"
    by (simp add: eval_nat_numeral)
  with i show "ttlFromCacheControlHeader (JStr s)
                 = to_double (of_int (decimal_value (digits_at s (n + 9))))"
    by (simp add: ttlFromCacheControlHeader_def parseInt10_decimal)
next
  assume c: "\<not> contains s ''no-cache'' \<and> \<not> contains s ''private''"
    and f: "no_match ''s-maxage='' s \<and> first_match ''max-age='' s m"
  from c have i: "indexOf s ''no-cache'' = -1 \<and> indexOf s ''private'' = -1"
    by (simp add: indexOf_none_iff)
  from f have n: "match_digits ''s-maxage='' s = None"
    by (simp add: match_digits_None_iff no_match_iff)
  from f have "first_match ''max-age='' s m" by simp
  from match_digits_first[OF this]
  have "match_digits ''max-age='' s = Some (digits_at s (m + 8))"
    by (simp add: eval_nat_numeral)
  with i n show "ttlFromCacheControlHeader (JStr s)
                   = to_double (of_int (decimal_value (digits_at s (m + 8))))"
    by (simp add: ttlFromCacheControlHeader_def parseInt10_decimal)
next
  assume c: "\<not> contains s ''no-cache'' \<and> \<not> contains s ''private''"
    and f: "no_match ''s-maxage='' s \<and> no_match ''max-age='' s"
  from c have i: "indexOf s ''no-cache'' = -1 \<and> indexOf s ''private'' = -1"
    by (simp add: indexOf_none_iff)
  from f have "match_digits ''s-maxage='' s = None" "match_digits ''max-age='' s = None"
    by (simp_all add: match_digits_None_iff no_match_iff)
  with i show "ttlFromCacheControlHeader (JStr s) = Num 0"
    by (simp add: ttlFromCacheControlHeader_def)
next
  assume "0 \<le> N \<and> N \<le> 2 ^ 53"
  then have "\<bar>N\<bar> \<le> 2 ^ 53" by simp
  then show "to_double (of_int N) = Num (of_int N)" by (rule to_double_exact)
next
  assume "2 ^ 1024 \<le> N"
  then have "of_int (2 ^ 1024) \<le> (of_int N :: rat)" by (simp only: of_int_le_iff)
  then have "2 ^ 1024 \<le> (of_int N :: rat)" by simp
  then show "to_double (of_int N) = PosInf" by (rule to_double_overflow)
next
  show "(\<exists>j\<ge>0. ttlFromCacheControlHeader v = Num (of_int j)) \<or>
        ttlFromCacheControlHeader v = PosInf"
    by (rule ttl_natural)
qed

text \<open>
  C3 as stated fails for long digit strings. The digits of \<open>max-age=9007199254740993\<close>
  denote \<open>2^53 + 1\<close>, which is not a double: the parser returns \<open>2^53\<close>. And for a
  one followed by 309 zeros it returns \<open>Infinity\<close>, which is not an integer.
\<close>

lemma ex_round: "to_double 9007199254740993 = Num 9007199254740992"
proof -
  have x: "(0::rat) < 9007199254740993" by simp
  have a: "(2::rat) powi 53 \<le> 9007199254740993" by simp
  have b: "(9007199254740993::rat) < 2 powi (53 + 1)" by simp
  show ?thesis
    unfolding to_double_pos[OF x a b] by (simp add: Let_def round_half_even_def floor_numeral_div_rat)
qed

lemma ex_big_match:
  "match_digits ''s-maxage='' ''max-age=9007199254740993'' = None"
  "match_digits ''max-age='' ''max-age=9007199254740993'' = Some ''9007199254740993''"
  "indexOf ''max-age=9007199254740993'' ''no-cache'' = -1"
  "indexOf ''max-age=9007199254740993'' ''private'' = -1"
  by code_simp+

lemma fold_digits_zeros:
  "foldl (\<lambda>n c. 10 * n + digit_val c) a (replicate k CHR ''0'') = a * 10 ^ k"
  by (induction k arbitrary: a) (simp_all add: digit_val_def)

lemma indexOf_from_absent: "hd sub \<notin> set s \<Longrightarrow> sub \<noteq> [] \<Longrightarrow> indexOf_from s sub i = -1"
proof (induction s sub i rule: indexOf_from.induct)
  case (1 sub i)
  then show ?case by simp
next
  case (2 c cs sub i)
  from 2(2,3) have "\<not> starts_with (c # cs) sub"
    by (cases sub) auto
  with 2 show ?case by simp
qed

lemma match_digits_absent: "hd key \<notin> set s \<Longrightarrow> key \<noteq> [] \<Longrightarrow> match_digits key s = None"
proof (induction key s rule: match_digits.induct)
  case (1 key)
  then show ?case by simp
next
  case (2 key c cs)
  from 2(2,3) have "\<not> starts_with (c # cs) key"
    by (cases key) auto
  with 2 show ?case by (simp add: Let_def)
qed

lemma ex_huge: "ttlFromCacheControlHeader (JStr (''max-age=1'' @ replicate 309 CHR ''0'')) = PosInf"
proof -
  let ?s = "''max-age=1'' @ replicate 309 CHR ''0''"
  have i1: "indexOf ?s ''no-cache'' = -1"
    unfolding indexOf_def by (rule indexOf_from_absent) auto
  have i2: "indexOf ?s ''private'' = -1"
    unfolding indexOf_def by (rule indexOf_from_absent) auto
  have m1: "match_digits ''s-maxage='' ?s = None"
    by (rule match_digits_absent) auto
  have tw: "takeWhile is_digit (''1'' @ replicate 309 CHR ''0'') = ''1'' @ replicate 309 CHR ''0''"
    by (rule takeWhile_eq_all_conv[THEN iffD2]) (auto simp: is_digit_def)
  have m2: "match_digits ''max-age='' ?s = Some (''1'' @ replicate 309 CHR ''0'')"
    using tw by (simp add: Let_def)
  have v: "foldl (\<lambda>n c. 10 * n + digit_val c) 0 (''1'' @ replicate 309 CHR ''0'') = 10 ^ 309"
  proof -
    have "foldl (\<lambda>n c. 10 * n + digit_val c) 0 ''1'' = 1" by (simp add: digit_val_def)
    then show ?thesis by (simp only: foldl_append fold_digits_zeros mult_1)
  qed
  have "(2::int) ^ 1024 \<le> 10 ^ 309" by simp
  then have "of_int (2 ^ 1024) \<le> (of_int (10 ^ 309) :: rat)" by (simp only: of_int_le_iff)
  then have "2 ^ 1024 \<le> (of_int (10 ^ 309) :: rat)" by simp
  from to_double_overflow[OF this] show ?thesis
    by (simp only: ttlFromCacheControlHeader_def jsval.case i1 i2 m1 m2 option.case parseInt10_def v
        simp_thms if_True)
qed

theorem ttl_of_long_digit_strings:
  "decimal_value (digits_at ''max-age=9007199254740993'' 8) = 9007199254740993 \<and>
   ttlFromCacheControlHeader (JStr ''max-age=9007199254740993'') = Num 9007199254740992 \<and>
   ttlFromCacheControlHeader (JStr (''max-age=1'' @ replicate 309 CHR ''0'')) = PosInf"
proof (intro conjI)
  have "digits_at ''max-age=9007199254740993'' 8 = ''9007199254740993''"
    by (simp add: digits_at_def is_digit_def)
  moreover have "foldl (\<lambda>n c. 10 * n + digit_val c) 0 ''9007199254740993'' = 9007199254740993"
    by (simp add: digit_val_def)
  ultimately show "decimal_value (digits_at ''max-age=9007199254740993'' 8) = 9007199254740993"
    by (simp only: fold_digits_decimal[symmetric])
next
  have "foldl (\<lambda>n c. 10 * n + digit_val c) 0 ''9007199254740993'' = 9007199254740993"
    by (simp add: digit_val_def)
  then show "ttlFromCacheControlHeader (JStr ''max-age=9007199254740993'') = Num 9007199254740992"
    by (simp only: ttlFromCacheControlHeader_def jsval.case ex_big_match option.case parseInt10_def
        simp_thms if_True of_int_numeral ex_round)
next
  show "ttlFromCacheControlHeader (JStr (''max-age=1'' @ replicate 309 CHR ''0'')) = PosInf"
    by (rule ex_huge)
qed

lemma c3_ex_contains_private: "contains ''max-age=5, private'' ''private''"
  by code_simp

lemma c3_ex_clean:
  "\<not> contains ''max-age=2, s-maxage=30'' ''no-cache'' \<and>
   \<not> contains ''max-age=2, s-maxage=30'' ''private''"
  by (simp add: contains_def atMost_Suc ball_simps eval_nat_numeral)

lemma c3_ex_first: "first_match ''s-maxage='' ''max-age=2, s-maxage=30'' 11"
  by code_simp

lemma c3_ex_digits: "decimal_value (digits_at ''max-age=2, s-maxage=30'' (11 + 9)) = 30"
  by code_simp

theorem ttlFromCacheControlHeader_spec_witness:
  "ttlFromCacheControlHeader JUndefined = Num 0 \<and>
   ttlFromCacheControlHeader (JStr ''max-age=5, private'') = Num 0 \<and>
   ttlFromCacheControlHeader (JStr ''max-age=2, s-maxage=30'') = Num 30 \<and>
   to_double (of_int (2 ^ 1024)) = PosInf"
proof (intro conjI)
  have "\<forall>t. JUndefined \<noteq> JStr t" by simp
  then show "ttlFromCacheControlHeader JUndefined = Num 0"
    by (rule ttlFromCacheControlHeader_spec[of JUndefined "[]" 0 0 0, THEN conjunct1, THEN mp])
next
  have "contains ''max-age=5, private'' ''no-cache'' \<or> contains ''max-age=5, private'' ''private''"
    by (rule disjI2) (rule c3_ex_contains_private)
  then show "ttlFromCacheControlHeader (JStr ''max-age=5, private'') = Num 0"
    by (rule ttlFromCacheControlHeader_spec[of JNull "''max-age=5, private''" 0 0 0,
          THEN conjunct2, THEN conjunct1, THEN mp])
next
  note T = ttlFromCacheControlHeader_spec[of JNull "''max-age=2, s-maxage=30''" 11 0 30]
  note S = T[THEN conjunct2, THEN conjunct2, THEN conjunct1, THEN mp, OF c3_ex_clean]
  have "ttlFromCacheControlHeader (JStr ''max-age=2, s-maxage=30'')
        = to_double (of_int (decimal_value (digits_at ''max-age=2, s-maxage=30'' (11 + 9))))"
    by (rule S[THEN conjunct1, THEN mp, OF c3_ex_first])
  also have "\<dots> = to_double (of_int 30)" by (simp only: c3_ex_digits)
  also have "\<dots> = Num (of_int 30)"
    by (rule T[THEN conjunct2, THEN conjunct2, THEN conjunct2, THEN conjunct1, THEN mp]) simp
  finally show "ttlFromCacheControlHeader (JStr ''max-age=2, s-maxage=30'') = Num 30" by simp
next
  have "(2::int) ^ 1024 \<le> 2 ^ 1024" by simp
  then show "to_double (of_int (2 ^ 1024)) = PosInf"
    by (rule ttlFromCacheControlHeader_spec[of JNull "[]" 0 0 "2 ^ 1024",
          THEN conjunct2, THEN conjunct2, THEN conjunct2, THEN conjunct2, THEN conjunct1, THEN mp])
qed
section \<open>The file locker: balanced call sequences\<close>

lemma outstanding_lock:
  "outstanding (fst (lock now file p t)) k = (if file = k then Suc (outstanding t k) else outstanding t k)"
  by (auto simp: outstanding_def lock_def split: option.splits)

lemma outstanding_unlock:
  "outstanding (fst (unlock now file t)) k = (if file = k then outstanding t k - 1 else outstanding t k)"
  by (auto simp: outstanding_def unlock_def split: option.splits list.splits)

lemma outstanding_zero_iff: "outstanding t k = 0 \<longleftrightarrow> t k = None"
  by (simp add: outstanding_def split: option.splits)

lemma balanced_from_outstanding:
  "balanced_from k (outstanding t k) cs \<Longrightarrow> outstanding (locker_calls cs t) k = 0"
proof (induction cs arbitrary: t)
  case Nil
  then show ?case by simp
next
  case (Cons c cs)
  show ?case
  proof (cases c)
    case (Lock now fl p)
    with Cons.prems
    have "balanced_from k (outstanding (locker_call c t) k) cs"
      by (simp add: outstanding_lock)
    from Cons.IH[OF this] show ?thesis by simp
  next
    case (Unlock now fl)
    with Cons.prems
    have "balanced_from k (outstanding (locker_call c t) k) cs"
      by (simp add: outstanding_unlock split: if_splits)
    from Cons.IH[OF this] show ?thesis by simp
  qed
qed

text \<open>
  C2. Starting from a lock table with no entry for \<open>k\<close>, after any sequence of
  \<open>lock\<close>/\<open>unlock\<close> calls (on any keys) in which the calls for \<open>k\<close> are balanced, the
  table has no entry for \<open>k\<close>. The first \<open>lock\<close> creates the entry with an empty waiter
  list and calls its \<open>proceed\<close>; a later \<open>lock\<close> appends its \<open>proceed\<close> to the waiters
  and calls nothing; \<open>unlock\<close> calls the head waiter and keeps the rest when there is
  one, and deletes the entry when there is none.
\<close>

theorem locker_balanced_leaves_no_entry:
  "(t k = None \<and> balanced_from k 0 cs \<longrightarrow> locker_calls cs t k = None) \<and>
   (t k = None \<longrightarrow>
      lock now k p t = (t(k \<mapsto> \<lparr>lastUpdated = now, onRelease = []\<rparr>), Some p)) \<and>
   (t k = Some e \<longrightarrow>
      lock now k p t = (t(k \<mapsto> e\<lparr>onRelease := onRelease e @ [p]\<rparr>), None)) \<and>
   (t k = Some e \<and> onRelease e = q # qs \<longrightarrow>
      unlock now k t = (t(k \<mapsto> \<lparr>lastUpdated = now, onRelease = qs\<rparr>), Some q)) \<and>
   (t k = Some e \<and> onRelease e = [] \<longrightarrow> unlock now k t = (t(k := None), None))"
proof (intro conjI impI)
  assume h: "t k = None \<and> balanced_from k 0 cs"
  then have "outstanding t k = 0" by (simp add: outstanding_zero_iff)
  with h have "balanced_from k (outstanding t k) cs" by simp
  from balanced_from_outstanding[OF this] show "locker_calls cs t k = None"
    by (simp add: outstanding_zero_iff)
qed (simp_all add: lock_def unlock_def)

theorem locker_balanced_leaves_no_entry_witness:
  "locker_calls [Lock 1 ''f'' (1::nat), Lock 2 ''f'' 2, Lock 3 ''g'' 3, Unlock 4 ''f'',
                 Lock 5 ''f'' 4, Unlock 6 ''f'', Unlock 7 ''f'']
     Map.empty ''f'' = None \<and>
   lock 1 ''f'' (1::nat) Map.empty
     = (Map.empty(''f'' \<mapsto> \<lparr>lastUpdated = 1, onRelease = []\<rparr>), Some 1) \<and>
   lock 2 ''f'' (2::nat) [''f'' \<mapsto> \<lparr>lastUpdated = 1, onRelease = []\<rparr>]
     = ([''f'' \<mapsto> \<lparr>lastUpdated = 1, onRelease = [2]\<rparr>], None) \<and>
   unlock 4 ''f'' [''f'' \<mapsto> \<lparr>lastUpdated = 1, onRelease = [2::nat]\<rparr>]
     = ([''f'' \<mapsto> \<lparr>lastUpdated = 4, onRelease = []\<rparr>], Some 2) \<and>
   unlock 7 ''f'' [''f'' \<mapsto> \<lparr>lastUpdated = 4, onRelease = ([]::nat list)\<rparr>]
     = (Map.empty, None)"
proof -
  define cs :: "(string, nat) locker_op list" where
    "cs = [Lock 1 ''f'' 1, Lock 2 ''f'' 2, Lock 3 ''g'' 3, Unlock 4 ''f'',
           Lock 5 ''f'' 4, Unlock 6 ''f'', Unlock 7 ''f'']"
  define t1 :: "(string, nat) lock_table" where
    "t1 = [''f'' \<mapsto> \<lparr>lastUpdated = 1, onRelease = []\<rparr>]"
  define t2 :: "(string, nat) lock_table" where
    "t2 = [''f'' \<mapsto> \<lparr>lastUpdated = 1, onRelease = [2]\<rparr>]"
  define t4 :: "(string, nat) lock_table" where
    "t4 = [''f'' \<mapsto> \<lparr>lastUpdated = 4, onRelease = []\<rparr>]"
  have a: "(Map.empty :: (string, nat) lock_table) ''f'' = None \<and> balanced_from ''f'' 0 cs"
    by (simp add: cs_def)
  have b: "(Map.empty :: (string, nat) lock_table) ''f'' = None"
    by simp
  have c: "t1 ''f'' = Some \<lparr>lastUpdated = 1, onRelease = []\<rparr>"
    by (simp add: t1_def)
  have d: "t2 ''f'' = Some \<lparr>lastUpdated = 1, onRelease = [2]\<rparr> \<and>
           onRelease \<lparr>lastUpdated = 1, onRelease = [2::nat]\<rparr> = 2 # []"
    by (simp add: t2_def)
  have e: "t4 ''f'' = Some \<lparr>lastUpdated = 4, onRelease = []\<rparr> \<and>
           onRelease \<lparr>lastUpdated = 4, onRelease = ([]::nat list)\<rparr> = []"
    by (simp add: t4_def)
  note T = locker_balanced_leaves_no_entry
  have 1: "locker_calls cs Map.empty ''f'' = None"
    using T[of Map.empty "''f''" cs, THEN conjunct1] a by (rule mp)
  have 2: "lock 1 ''f'' (1::nat) Map.empty
           = (Map.empty(''f'' \<mapsto> \<lparr>lastUpdated = 1, onRelease = []\<rparr>), Some 1)"
    using T[of Map.empty "''f''" "[]" 1 1, THEN conjunct2, THEN conjunct1] b by (rule mp)
  have 3: "lock 2 ''f'' (2::nat) t1
           = (t1(''f'' \<mapsto> \<lparr>lastUpdated = 1, onRelease = []\<rparr>\<lparr>onRelease :=
                 onRelease \<lparr>lastUpdated = 1, onRelease = []\<rparr> @ [2]\<rparr>), None)"
    using T[of t1 "''f''" "[]" 2 2 "\<lparr>lastUpdated = 1, onRelease = []\<rparr>",
        THEN conjunct2, THEN conjunct2, THEN conjunct1] c by (rule mp)
  have 4: "unlock 4 ''f'' t2 = (t2(''f'' \<mapsto> \<lparr>lastUpdated = 4, onRelease = []\<rparr>), Some 2)"
    using T[of t2 "''f''" "[]" 4 0 "\<lparr>lastUpdated = 1, onRelease = [2]\<rparr>" 2 "[]",
        THEN conjunct2, THEN conjunct2, THEN conjunct2, THEN conjunct1] d by (rule mp)
  have 5: "unlock 7 ''f'' t4 = (t4(''f'' := None), None)"
    using T[of t4 "''f''" "[]" 7 0 "\<lparr>lastUpdated = 4, onRelease = []\<rparr>" 0 "[]",
        THEN conjunct2, THEN conjunct2, THEN conjunct2, THEN conjunct2] e by (rule mp)
  show ?thesis
    using 1 2 3 4 5 by (simp add: cs_def t1_def t2_def t4_def)
qed
section \<open>The filesystem probe: hit and miss\<close>








section \<open>Expiry stamped by a successful upstream fetch\<close>











section \<open>The codes of fetch failures\<close>

text \<open>
  C6, as amended. A failed fetch calls back with one error whose message is
  \<open>Upstream {url} failed: \<close> followed by the message of the underlying error. The error
  carries a numeric code in four cases: a transport error gives 504 when its code is
  \<open>ECONNREFUSED\<close>, \<open>ETIMEDOUT\<close> or \<open>ESOCKETTIMEDOUT\<close> and 502 otherwise; a status other
  than 200 gives that status, with underlying message \<open>status code N\<close>; a content type
  outside a non-empty \<open>mediaTypes\<close> gives 415, with \<open>unsupported media-type X\<close>; the
  response timer gives 504, with \<open>response timeout of Nms\<close>. In the other cases it carries
  none: an error of the response stream is passed on with whatever code it has, and the
  errors made for a failed rename or a failed \<open>utimes\<close> have no code.
\<close>

theorem fetch_failure_codes:
  "(ops_of r s = [PGet c] \<longrightarrow>
      dones r (trace (run [GetError r errcode msg, UnlinkPartDone r fault] s))
        = dones r (trace s) @
          [Failure \<lparr>message = ''Upstream '' @ url c @ '' failed: '' @ msg,
                    code = NumCode (if errcode \<in> {Some ''ECONNREFUSED'', Some ''ETIMEDOUT'',
                                                    Some ''ESOCKETTIMEDOUT''}
                                    then 504 else 502)\<rparr>]) \<and>
   (ops_of r s = [PGet c] \<and> statusCode \<noteq> 200 \<longrightarrow>
      dones r (trace (run [GetResponse r statusCode ct cc, UnlinkPartDone r fault] s))
        = dones r (trace s) @
          [Failure \<lparr>message = ''Upstream '' @ url c @ '' failed: status code ''
                                @ show_number statusCode,
                    code = NumCode statusCode\<rparr>]) \<and>
   (ops_of r s = [PGet c] \<and> mediaTypes (inst c) \<noteq> [] \<and> ct \<notin> Some ` set (mediaTypes (inst c)) \<longrightarrow>
      dones r (trace (run [GetResponse r 200 ct cc, UnlinkPartDone r fault] s))
        = dones r (trace s) @
          [Failure \<lparr>message = ''Upstream '' @ url c @ '' failed: unsupported media-type ''
                                @ show_header ct,
                    code = NumCode 415\<rparr>]) \<and>
   (ops_of r s = [PGet c] \<and> (mediaTypes (inst c) = [] \<or> ct \<in> Some ` set (mediaTypes (inst c))) \<and>
    0 < responseTimeout (inst c) \<longrightarrow>
      dones r (trace (run [GetResponse r 200 ct cc, TimerFires r, UnlinkPartDone r fault] s))
        = dones r (trace s) @
          [Failure \<lparr>message = ''Upstream '' @ url c @ '' failed: response timeout of ''
                                @ show_number (responseTimeout (inst c)) @ ''ms'',
                    code = NumCode 504\<rparr>]) \<and>
   (ops_of r s = [PGet c] \<and> (mediaTypes (inst c) = [] \<or> ct \<in> Some ` set (mediaTypes (inst c))) \<longrightarrow>
      dones r (trace (run [GetResponse r 200 ct cc, ResError r err, UnlinkPartDone r fault] s))
        = dones r (trace s) @
          [Failure \<lparr>message = ''Upstream '' @ url c @ '' failed: '' @ message err,
                    code = code err\<rparr>]) \<and>
   (ops_of r s = [PRename c cc] \<longrightarrow>
      dones r (trace (run [RenameDone r (Some e), UnlinkPartDone r fault] s))
        = dones r (trace s) @
          [Failure \<lparr>message = ''Upstream '' @ url c @ '' failed: could not rename ''
                                @ partialContentFilename c @ '' as '' @ filename c @ '' '' @ e,
                    code = NoCode\<rparr>]) \<and>
   (ops_of r s = [PUtimes c a m] \<longrightarrow>
      dones r (trace (run [UtimesDone r (Some e), UnlinkPartDone r fault] s))
        = dones r (trace s) @
          [Failure \<lparr>message = ''Upstream '' @ url c @ '' failed: could not update ''
                                @ filename c @ '' '' @ e,
                    code = NoCode\<rparr>])"
proof (intro conjI impI)
  assume sole: "ops_of r s = [PGet c]"
  from ops_of_rid[OF sole] have r: "rid c = r" by simp
  show "dones r (trace (run [GetError r errcode msg, UnlinkPartDone r fault] s))
        = dones r (trace s) @
          [Failure \<lparr>message = ''Upstream '' @ url c @ '' failed: '' @ msg,
                    code = NumCode (if errcode \<in> {Some ''ECONNREFUSED'', Some ''ETIMEDOUT'',
                                                    Some ''ESOCKETTIMEDOUT''}
                                    then 504 else 502)\<rparr>]"
    unfolding scen_transport[OF sole] using r by (simp add: errorWithCode_def transport_code_eq on_unlink_part_fields)
next
  assume h: "ops_of r s = [PGet c] \<and> statusCode \<noteq> 200"
  then have sole: "ops_of r s = [PGet c]" and st: "statusCode \<noteq> 200" by simp_all
  from ops_of_rid[OF sole] have r: "rid c = r" by simp
  show "dones r (trace (run [GetResponse r statusCode ct cc, UnlinkPartDone r fault] s))
        = dones r (trace s) @
          [Failure \<lparr>message = ''Upstream '' @ url c @ '' failed: status code ''
                                @ show_number statusCode,
                    code = NumCode statusCode\<rparr>]"
    unfolding scen_status[OF sole st] using r by (simp add: errorWithCode_def on_unlink_part_fields)
next
  assume h: "ops_of r s = [PGet c] \<and> mediaTypes (inst c) \<noteq> [] \<and> ct \<notin> Some ` set (mediaTypes (inst c))"
  then have sole: "ops_of r s = [PGet c]" and mt: "mediaTypes (inst c) \<noteq> []"
    "\<not> includes_header (mediaTypes (inst c)) ct"
    by (simp_all add: includes_header_eq)
  from ops_of_rid[OF sole] have r: "rid c = r" by simp
  show "dones r (trace (run [GetResponse r 200 ct cc, UnlinkPartDone r fault] s))
        = dones r (trace s) @
          [Failure \<lparr>message = ''Upstream '' @ url c @ '' failed: unsupported media-type ''
                                @ show_header ct,
                    code = NumCode 415\<rparr>]"
    unfolding scen_media[OF sole mt] using r by (simp add: errorWithCode_def on_unlink_part_fields)
next
  assume h: "ops_of r s = [PGet c] \<and> (mediaTypes (inst c) = [] \<or> ct \<in> Some ` set (mediaTypes (inst c))) \<and>
    0 < responseTimeout (inst c)"
  then have sole: "ops_of r s = [PGet c]"
    and ok: "mediaTypes (inst c) = [] \<or> includes_header (mediaTypes (inst c)) ct"
    and armed: "0 < responseTimeout (inst c)"
    by (simp_all add: includes_header_eq)
  from ops_of_rid[OF sole] have r: "rid c = r" by simp
  show "dones r (trace (run [GetResponse r 200 ct cc, TimerFires r, UnlinkPartDone r fault] s))
        = dones r (trace s) @
          [Failure \<lparr>message = ''Upstream '' @ url c @ '' failed: response timeout of ''
                                @ show_number (responseTimeout (inst c)) @ ''ms'',
                    code = NumCode 504\<rparr>]"
    unfolding scen_timeout[OF sole ok armed] using r by (simp add: errorWithCode_def on_unlink_part_fields)
next
  assume h: "ops_of r s = [PGet c] \<and> (mediaTypes (inst c) = [] \<or> ct \<in> Some ` set (mediaTypes (inst c)))"
  then have sole: "ops_of r s = [PGet c]"
    and ok: "mediaTypes (inst c) = [] \<or> includes_header (mediaTypes (inst c)) ct"
    by (simp_all add: includes_header_eq)
  from ops_of_rid[OF sole] have r: "rid c = r" by simp
  show "dones r (trace (run [GetResponse r 200 ct cc, ResError r err, UnlinkPartDone r fault] s))
        = dones r (trace s) @
          [Failure \<lparr>message = ''Upstream '' @ url c @ '' failed: '' @ message err,
                    code = code err\<rparr>]"
    unfolding scen_res_error[OF sole ok] using r by (cases err) (simp add: on_unlink_part_fields)
next
  assume sole: "ops_of r s = [PRename c cc]"
  from ops_of_rid[OF sole] have r: "rid c = r" by simp
  show "dones r (trace (run [RenameDone r (Some e), UnlinkPartDone r fault] s))
        = dones r (trace s) @
          [Failure \<lparr>message = ''Upstream '' @ url c @ '' failed: could not rename ''
                                @ partialContentFilename c @ '' as '' @ filename c @ '' '' @ e,
                    code = NoCode\<rparr>]"
    unfolding scen_rename_fail[OF sole] using r by (simp add: newError_def on_unlink_part_fields)
next
  assume sole: "ops_of r s = [PUtimes c a m]"
  from ops_of_rid[OF sole] have r: "rid c = r" by simp
  show "dones r (trace (run [UtimesDone r (Some e), UnlinkPartDone r fault] s))
        = dones r (trace s) @
          [Failure \<lparr>message = ''Upstream '' @ url c @ '' failed: could not update ''
                                @ filename c @ '' '' @ e,
                    code = NoCode\<rparr>]"
    unfolding scen_utimes_fail[OF sole] using r by (simp add: newError_def on_unlink_part_fields)
qed

text \<open>
  C6 as stated fails: the fetch below fails at the rename, and the error its caller
  receives has no code.
\<close>

theorem rename_failure_has_no_code:
  "dones 0 (trace (run [CallFetch ex_petra ex_url, StatDone 0 None, MkdirDone 0 None,
       GetResponse 0 200 None JUndefined, ResEnd 0, FileClose 0 18,
       RenameDone 0 (Some ''EACCES''), UnlinkPartDone 0 None] init))
     = [Failure \<lparr>message = ''Upstream http://example.com/path failed: could not rename /tmp/petra/te/test-fingerprint.part as /tmp/petra/te/test-fingerprint EACCES'',
                  code = NoCode\<rparr>]"
  by code_simp

theorem fetch_failure_codes_witness:
  "dones 0 (trace (run [GetError 0 (Some ''ETIMEDOUT'') ''connect ETIMEDOUT'', UnlinkPartDone 0 None]
       (ex_state (PGet (ex_ctx 0)) Map.empty)))
     = [Failure \<lparr>message = ''Upstream '' @ ex_url @ '' failed: connect ETIMEDOUT'',
                  code = NumCode 504\<rparr>] \<and>
   dones 0 (trace (run [GetResponse 0 404 None JUndefined, UnlinkPartDone 0 None]
       (ex_state (PGet (ex_ctx 0)) Map.empty)))
     = [Failure \<lparr>message = ''Upstream '' @ ex_url @ '' failed: status code 404'',
                  code = NumCode 404\<rparr>] \<and>
   dones 0 (trace (run [GetResponse 0 200 (Some ''text/html'') JUndefined, UnlinkPartDone 0 None]
       (ex_state (PGet (ex_ctx_png 0)) Map.empty)))
     = [Failure \<lparr>message = ''Upstream '' @ ex_url @ '' failed: unsupported media-type text/html'',
                  code = NumCode 415\<rparr>] \<and>
   dones 0 (trace (run [GetResponse 0 200 None JUndefined, TimerFires 0, UnlinkPartDone 0 None]
       (ex_state (PGet (ex_ctx 0)) Map.empty)))
     = [Failure \<lparr>message = ''Upstream '' @ ex_url @ '' failed: response timeout of 100ms'',
                  code = NumCode 504\<rparr>] \<and>
   dones 0 (trace (run [GetResponse 0 200 None JUndefined,
                        ResError 0 \<lparr>message = ''aborted'', code = StrCode ''ECONNRESET''\<rparr>,
                        UnlinkPartDone 0 None]
       (ex_state (PGet (ex_ctx 0)) Map.empty)))
     = [Failure \<lparr>message = ''Upstream '' @ ex_url @ '' failed: aborted'',
                  code = StrCode ''ECONNRESET''\<rparr>] \<and>
   dones 0 (trace (run [RenameDone 0 (Some ''EACCES''), UnlinkPartDone 0 None]
       (ex_state (PRename (ex_ctx 0) JUndefined) Map.empty)))
     = [Failure \<lparr>message = ''Upstream '' @ ex_url @ '' failed: could not rename '' @ ex_file
                              @ ''.part as '' @ ex_file @ '' EACCES'',
                  code = NoCode\<rparr>] \<and>
   dones 0 (trace (run [UtimesDone 0 (Some ''EPERM''), UnlinkPartDone 0 None]
       (ex_state (PUtimes (ex_ctx 0) (DateAt 100) (DateAt 10100)) Map.empty)))
     = [Failure \<lparr>message = ''Upstream '' @ ex_url @ '' failed: could not update '' @ ex_file
                              @ '' EPERM'',
                  code = NoCode\<rparr>]"
proof (intro conjI)
  let ?g = "ex_state (PGet (ex_ctx 0)) Map.empty"
  have g: "ops_of 0 ?g = [PGet (ex_ctx 0)]" by (simp add: ex_ops_of)
  note T = fetch_failure_codes[where r = 0 and fault = None]
  from T[where s = ?g and c = "ex_ctx 0" and errcode = "Some ''ETIMEDOUT''"
        and msg = "''connect ETIMEDOUT''", THEN conjunct1, THEN mp, OF g]
  show "dones 0 (trace (run [GetError 0 (Some ''ETIMEDOUT'') ''connect ETIMEDOUT'', UnlinkPartDone 0 None] ?g))
     = [Failure \<lparr>message = ''Upstream '' @ ex_url @ '' failed: connect ETIMEDOUT'',
                  code = NumCode 504\<rparr>]"
    by simp
  have h2: "ops_of 0 ?g = [PGet (ex_ctx 0)] \<and> (404::int) \<noteq> 200" using g by simp
  from T[where s = ?g and c = "ex_ctx 0" and statusCode = 404 and ct = None and cc = JUndefined,
        THEN conjunct2, THEN conjunct1, THEN mp, OF h2]
  show "dones 0 (trace (run [GetResponse 0 404 None JUndefined, UnlinkPartDone 0 None] ?g))
     = [Failure \<lparr>message = ''Upstream '' @ ex_url @ '' failed: status code 404'',
                  code = NumCode 404\<rparr>]"
    by (simp add: ex_show_numbers)
  let ?p = "ex_state (PGet (ex_ctx_png 0)) Map.empty"
  have h3: "ops_of 0 ?p = [PGet (ex_ctx_png 0)] \<and> mediaTypes (inst (ex_ctx_png 0)) \<noteq> [] \<and>
            Some ''text/html'' \<notin> Some ` set (mediaTypes (inst (ex_ctx_png 0)))"
    by (simp add: ex_ops_of)
  from T[where s = ?p and c = "ex_ctx_png 0" and ct = "Some ''text/html''" and cc = JUndefined,
        THEN conjunct2, THEN conjunct2, THEN conjunct1, THEN mp, OF h3]
  show "dones 0 (trace (run [GetResponse 0 200 (Some ''text/html'') JUndefined, UnlinkPartDone 0 None] ?p))
     = [Failure \<lparr>message = ''Upstream '' @ ex_url @ '' failed: unsupported media-type text/html'',
                  code = NumCode 415\<rparr>]"
    by (simp add: show_header_def)
  have h4: "ops_of 0 ?g = [PGet (ex_ctx 0)] \<and>
            (mediaTypes (inst (ex_ctx 0)) = [] \<or> None \<in> Some ` set (mediaTypes (inst (ex_ctx 0)))) \<and>
            0 < responseTimeout (inst (ex_ctx 0))"
    using g by simp
  from T[where s = ?g and c = "ex_ctx 0" and ct = None and cc = JUndefined,
        THEN conjunct2, THEN conjunct2, THEN conjunct2, THEN conjunct1, THEN mp, OF h4]
  show "dones 0 (trace (run [GetResponse 0 200 None JUndefined, TimerFires 0, UnlinkPartDone 0 None] ?g))
     = [Failure \<lparr>message = ''Upstream '' @ ex_url @ '' failed: response timeout of 100ms'',
                  code = NumCode 504\<rparr>]"
    by (simp add: ex_show_numbers)
  have h5: "ops_of 0 ?g = [PGet (ex_ctx 0)] \<and>
            (mediaTypes (inst (ex_ctx 0)) = [] \<or> None \<in> Some ` set (mediaTypes (inst (ex_ctx 0))))"
    using g by simp
  from T[where s = ?g and c = "ex_ctx 0" and ct = None and cc = JUndefined
        and err = "\<lparr>message = ''aborted'', code = StrCode ''ECONNRESET''\<rparr>",
        THEN conjunct2, THEN conjunct2, THEN conjunct2, THEN conjunct2, THEN conjunct1, THEN mp, OF h5]
  show "dones 0 (trace (run [GetResponse 0 200 None JUndefined,
                        ResError 0 \<lparr>message = ''aborted'', code = StrCode ''ECONNRESET''\<rparr>,
                        UnlinkPartDone 0 None] ?g))
     = [Failure \<lparr>message = ''Upstream '' @ ex_url @ '' failed: aborted'',
                  code = StrCode ''ECONNRESET''\<rparr>]"
    by simp
  let ?r = "ex_state (PRename (ex_ctx 0) JUndefined) Map.empty"
  have h6: "ops_of 0 ?r = [PRename (ex_ctx 0) JUndefined]" by (simp add: ex_ops_of)
  from T[where s = ?r and c = "ex_ctx 0" and cc = JUndefined and e = "''EACCES''",
        THEN conjunct2, THEN conjunct2, THEN conjunct2, THEN conjunct2, THEN conjunct2,
        THEN conjunct1, THEN mp, OF h6]
  show "dones 0 (trace (run [RenameDone 0 (Some ''EACCES''), UnlinkPartDone 0 None] ?r))
     = [Failure \<lparr>message = ''Upstream '' @ ex_url @ '' failed: could not rename '' @ ex_file
                              @ ''.part as '' @ ex_file @ '' EACCES'',
                  code = NoCode\<rparr>]"
    by (simp add: ex_filename ex_part)
  let ?u = "ex_state (PUtimes (ex_ctx 0) (DateAt 100) (DateAt 10100)) Map.empty"
  have h7: "ops_of 0 ?u = [PUtimes (ex_ctx 0) (DateAt 100) (DateAt 10100)]" by (simp add: ex_ops_of)
  from T[where s = ?u and c = "ex_ctx 0" and a = "DateAt 100" and m = "DateAt 10100" and e = "''EPERM''",
        THEN conjunct2, THEN conjunct2, THEN conjunct2, THEN conjunct2, THEN conjunct2,
        THEN conjunct2, THEN mp, OF h7]
  show "dones 0 (trace (run [UtimesDone 0 (Some ''EPERM''), UnlinkPartDone 0 None] ?u))
     = [Failure \<lparr>message = ''Upstream '' @ ex_url @ '' failed: could not update '' @ ex_file
                              @ '' EPERM'',
                  code = NoCode\<rparr>]"
    by (simp add: ex_filename)
qed
section \<open>Purge\<close>

lemma count_woken [simp]: "count_list (woken file s) (APurged r) = 0"
  by (simp add: woken_def split: option.splits)

lemma purge_completion:
  assumes tf: "take_first (is_op [KUnlinkPurge] r) (pending s) = Some (PUnlinkPurge c, rest)"
  shows "step (UnlinkPurgeDone r fault) s
           = emit (APurged r)
               (locker_unlock (filename c)
                 (s\<lparr>files := snd (fs_unlink fault (filename c) (files s)), pending := rest\<rparr>))"
proof -
  from take_first_holds[OF tf] have r: "rid c = r" by (simp add: is_op_def)
  show ?thesis
    by (simp add: step.simps deliver_take[OF tf] on_unlink_purge_def r split: prod.splits)
qed

lemma purge_woken:
  assumes held: "lockedFiles s f = Some e" and head: "onRelease e = PurgeProceed c # ws"
    and idle: "ops_of (rid c) s = []"
  shows "locker_unlock f s
           = s\<lparr>lockedFiles := (lockedFiles s)(f \<mapsto> \<lparr>lastUpdated = clock s, onRelease = ws\<rparr>),
                pending := pending s @ [PUnlinkPurge c],
                trace := trace s @ [AUnlock f, AProceed (rid c)]\<rparr>"
    and "take_first (is_op [KUnlinkPurge] (rid c)) (pending (locker_unlock f s))
           = Some (PUnlinkPurge c, pending s)"
proof -
  show eq: "locker_unlock f s
           = s\<lparr>lockedFiles := (lockedFiles s)(f \<mapsto> \<lparr>lastUpdated = clock s, onRelease = ws\<rparr>),
                pending := pending s @ [PUnlinkPurge c],
                trace := trace s @ [AUnlock f, AProceed (rid c)]\<rparr>"
    using held head
    by (simp add: locker_unlock_def unlock_def call_opt_def run_proceed_def emit_def start_def)
  have "filter (is_op [KUnlinkPurge] (rid c)) (pending s) = []"
    using idle by (auto simp: ops_of_def filter_empty_conv is_op_def)
  from take_first_none[OF this]
  show "take_first (is_op [KUnlinkPurge] (rid c)) (pending (locker_unlock f s))
           = Some (PUnlinkPurge c, pending s)"
    unfolding eq by (simp add: take_first_append is_op_def)
qed

lemma unlocks_reach:
  assumes "t f = Some e" "onRelease e = ws @ p # rest" "length ns = length ws"
  shows "\<exists>e'. locker_calls (map (\<lambda>n. Unlock n f) ns) t f = Some e' \<and> onRelease e' = p # rest"
  using assms
proof (induction ns arbitrary: t e ws)
  case Nil
  then show ?case by simp
next
  case (Cons n ns)
  then obtain w ws' where ws: "ws = w # ws'" by (cases ws) auto
  let ?t = "locker_call (Unlock n f) t"
  have "?t f = Some \<lparr>lastUpdated = n, onRelease = ws' @ p # rest\<rparr>"
    using Cons.prems ws by (simp add: unlock_def)
  then have 1: "?t f = Some \<lparr>lastUpdated = n, onRelease = ws' @ p # rest\<rparr>"
    and 2: "onRelease \<lparr>lastUpdated = n, onRelease = ws' @ p # rest\<rparr> = ws' @ p # rest"
    by simp_all
  have 3: "length ns = length ws'" using Cons.prems(3) ws by simp
  from Cons.IH[of ?t "\<lparr>lastUpdated = n, onRelease = ws' @ p # rest\<rparr>" ws', OF 1 2 3]
  show ?case by simp
qed

text \<open>
  C8, as amended. \<open>purge\<close> never reports a failure. When the lock of the cache file is
  free it proceeds at once; when the lock is held it joins the end of the queue of
  waiters, each release of the lock takes one waiter from the head of the queue, and the
  release that finds the purge at the head calls its \<open>proceed\<close>, which starts the unlink.
  Whenever the purge's unlink completes, whatever it answered, the purge releases the
  lock and then calls \<open>done\<close> once, with no argument, and nothing of the call is left in
  flight. If the unlink did not fail for a reason other than the file's absence, no
  file is at the canonical path at that moment; if it failed, the filesystem is
  unchanged.
\<close>

theorem purge_calls_done_once:
  "(lockedFiles s (filename_of this u) = None \<and> ops_of (next_rid s) s = [] \<longrightarrow>
      trace (run [CallPurge this u, UnlinkPurgeDone (next_rid s) fault] s)
        = trace s @ [AProceed (next_rid s), AUnlock (filename_of this u), APurged (next_rid s)] \<and>
      lockedFiles (run [CallPurge this u, UnlinkPurgeDone (next_rid s) fault] s) (filename_of this u)
        = None \<and>
      (fault = None \<longrightarrow>
         files (run [CallPurge this u, UnlinkPurgeDone (next_rid s) fault] s) (filename_of this u)
           = None) \<and>
      (fault \<noteq> None \<longrightarrow>
         files (run [CallPurge this u, UnlinkPurgeDone (next_rid s) fault] s) = files s)) \<and>
   (lockedFiles s (filename_of this u) = Some e \<longrightarrow>
      trace (step (CallPurge this u) s) = trace s \<and>
      pending (step (CallPurge this u) s) = pending s \<and>
      files (step (CallPurge this u) s) = files s \<and>
      lockedFiles (step (CallPurge this u) s) (filename_of this u)
        = Some (e\<lparr>onRelease := onRelease e
                     @ [PurgeProceed \<lparr>rid = next_rid s, inst = this, url = u\<rparr>]\<rparr>)) \<and>
   (t f = Some e \<and> onRelease e = ws @ PurgeProceed c # rest \<and> length ns = length ws \<longrightarrow>
      snd (unlock now f (locker_calls (map (\<lambda>n. Unlock n f) ns) t)) = Some (PurgeProceed c)) \<and>
   (lockedFiles s (filename c) = Some e \<and> onRelease e = PurgeProceed c # ws \<and>
    ops_of (rid c) s = [] \<longrightarrow>
      locker_unlock (filename c) s
        = s\<lparr>lockedFiles := (lockedFiles s)(filename c \<mapsto> \<lparr>lastUpdated = clock s, onRelease = ws\<rparr>),
             pending := pending s @ [PUnlinkPurge c],
             trace := trace s @ [AUnlock (filename c), AProceed (rid c)]\<rparr> \<and>
      trace (step (UnlinkPurgeDone (rid c) fault) (locker_unlock (filename c) s))
        = trace s @ [AUnlock (filename c), AProceed (rid c), AUnlock (filename c)]
            @ (case ws of [] \<Rightarrow> [] | w # ws' \<Rightarrow> [AProceed (rid (proceed_ctx w))])
            @ [APurged (rid c)] \<and>
      lockedFiles (step (UnlinkPurgeDone (rid c) fault) (locker_unlock (filename c) s)) (filename c)
        = (case ws of [] \<Rightarrow> None | w # ws' \<Rightarrow> Some \<lparr>lastUpdated = clock s, onRelease = ws'\<rparr>) \<and>
      pending (step (UnlinkPurgeDone (rid c) fault) (locker_unlock (filename c) s))
        = pending s @ (case ws of [] \<Rightarrow> [] | w # ws' \<Rightarrow> [first_op w]) \<and>
      (fault = None \<longrightarrow>
         files (step (UnlinkPurgeDone (rid c) fault) (locker_unlock (filename c) s)) (filename c)
           = None) \<and>
      (fault \<noteq> None \<longrightarrow>
         files (step (UnlinkPurgeDone (rid c) fault) (locker_unlock (filename c) s)) = files s)) \<and>
   (take_first (is_op [KUnlinkPurge] r) (pending s) = Some (PUnlinkPurge c, rest') \<longrightarrow>
      step (UnlinkPurgeDone r fault) s
        = emit (APurged r)
            (locker_unlock (filename c)
              (s\<lparr>files := snd (fs_unlink fault (filename c) (files s)), pending := rest'\<rparr>)) \<and>
      count_list (trace (step (UnlinkPurgeDone r fault) s)) (APurged r)
        = count_list (trace s) (APurged r) + 1) \<and>
   (ops_of r s = [] \<longrightarrow> step (UnlinkPurgeDone r fault) s = s)"
proof (intro conjI impI)
  assume h: "lockedFiles s (filename_of this u) = None \<and> ops_of (next_rid s) s = []"
  then have free: "lockedFiles s (filename_of this u) = None"
    and fresh: "ops_of (next_rid s) s = []" by simp_all
  let ?r = "next_rid s"
  let ?f = "filename_of this u"
  let ?c = "\<lparr>rid = ?r, inst = this, url = u\<rparr>"
  let ?S1 = "s\<lparr>lockedFiles := (lockedFiles s)(?f \<mapsto> \<lparr>lastUpdated = clock s, onRelease = []\<rparr>),
               pending := pending s @ [PUnlinkPurge ?c],
               trace := trace s @ [AProceed ?r],
               next_rid := Suc ?r\<rparr>"
  have fc: "filename ?c = ?f" by (simp add: filename_def)
  have s1: "step (CallPurge this u) s = ?S1" by (rule step_CallPurge_free[OF free])
  have o1: "ops_of ?r ?S1 = [PUnlinkPurge ?c]"
    using fresh by (simp add: ops_of_def)
  have run: "run [CallPurge this u, UnlinkPurgeDone ?r fault] s
               = on_unlink_purge ?c fault (?S1\<lparr>pending := ops_besides ?r ?S1\<rparr>)"
    using step_UnlinkPurgeDone[OF o1, of fault] by (simp add: s1)
  have nw: "next_waiter ?f ?S1 = None"
    by (simp add: next_waiter_def)
  show "trace (run [CallPurge this u, UnlinkPurgeDone ?r fault] s)
        = trace s @ [AProceed ?r, AUnlock ?f, APurged ?r]"
    unfolding run using nw
    by (simp add: on_unlink_purge_def fc woken_def next_waiter_def split: prod.splits)
  show "lockedFiles (run [CallPurge this u, UnlinkPurgeDone ?r fault] s) ?f = None"
    unfolding run
    by (simp add: on_unlink_purge_def fc unlock_def split: prod.splits)
  {
    assume "fault = None"
    then show "files (run [CallPurge this u, UnlinkPurgeDone ?r fault] s) ?f = None"
      unfolding run
      by (simp add: on_unlink_purge_def fc fs_unlink_def split: prod.splits option.splits)
  }
  {
    assume "fault \<noteq> None"
    then show "files (run [CallPurge this u, UnlinkPurgeDone ?r fault] s) = files s"
      unfolding run
      by (auto simp add: on_unlink_purge_def fc fs_unlink_def split: prod.splits option.splits)
  }
next
  assume held: "lockedFiles s (filename_of this u) = Some e"
  note s1 = step_CallPurge_held[OF held]
  show "trace (step (CallPurge this u) s) = trace s"
    "pending (step (CallPurge this u) s) = pending s"
    "files (step (CallPurge this u) s) = files s"
    "lockedFiles (step (CallPurge this u) s) (filename_of this u)
        = Some (e\<lparr>onRelease := onRelease e
                     @ [PurgeProceed \<lparr>rid = next_rid s, inst = this, url = u\<rparr>]\<rparr>)"
    by (simp_all add: s1)
next
  assume "t f = Some e \<and> onRelease e = ws @ PurgeProceed c # rest \<and> length ns = length ws"
  then have 1: "t f = Some e" and 2: "onRelease e = ws @ PurgeProceed c # rest"
    and 3: "length ns = length ws"
    by simp_all
  from unlocks_reach[of t f e ws "PurgeProceed c" rest ns, OF 1 2 3] obtain e' where
    "locker_calls (map (\<lambda>n. Unlock n f) ns) t f = Some e'" "onRelease e' = PurgeProceed c # rest"
    by blast
  then show "snd (unlock now f (locker_calls (map (\<lambda>n. Unlock n f) ns) t)) = Some (PurgeProceed c)"
    by (simp add: unlock_def)
next
  assume h: "lockedFiles s (filename c) = Some e \<and> onRelease e = PurgeProceed c # ws \<and>
    ops_of (rid c) s = []"
  then have held: "lockedFiles s (filename c) = Some e" and head: "onRelease e = PurgeProceed c # ws"
    and idle: "ops_of (rid c) s = []" by simp_all
  note W = purge_woken[OF held head idle]
  let ?S1 = "s\<lparr>lockedFiles := (lockedFiles s)(filename c \<mapsto> \<lparr>lastUpdated = clock s, onRelease = ws\<rparr>),
             pending := pending s @ [PUnlinkPurge c],
             trace := trace s @ [AUnlock (filename c), AProceed (rid c)]\<rparr>"
  show "locker_unlock (filename c) s = ?S1" by (rule W(1))
  note C = purge_completion[OF W(2), of fault]
  have nw: "next_waiter (filename c) ?S1 = (case ws of [] \<Rightarrow> None | w # ws' \<Rightarrow> Some w)"
    by (simp add: next_waiter_def)
  show "trace (step (UnlinkPurgeDone (rid c) fault) (locker_unlock (filename c) s))
        = trace s @ [AUnlock (filename c), AProceed (rid c), AUnlock (filename c)]
            @ (case ws of [] \<Rightarrow> [] | w # ws' \<Rightarrow> [AProceed (rid (proceed_ctx w))])
            @ [APurged (rid c)]"
    unfolding C unfolding W(1) using nw
    by (simp add: woken_def next_waiter_def split: list.splits)
  show "lockedFiles (step (UnlinkPurgeDone (rid c) fault) (locker_unlock (filename c) s)) (filename c)
        = (case ws of [] \<Rightarrow> None | w # ws' \<Rightarrow> Some \<lparr>lastUpdated = clock s, onRelease = ws'\<rparr>)"
    unfolding C unfolding W(1)
    by (simp add: unlock_def split: list.splits)
  show "pending (step (UnlinkPurgeDone (rid c) fault) (locker_unlock (filename c) s))
        = pending s @ (case ws of [] \<Rightarrow> [] | w # ws' \<Rightarrow> [first_op w])"
    unfolding C unfolding W(1)
    by (simp add: started_def next_waiter_def split: list.splits)
  {
    assume "fault = None"
    then show "files (step (UnlinkPurgeDone (rid c) fault) (locker_unlock (filename c) s)) (filename c)
           = None"
      unfolding C unfolding W(1) by simp
  }
  {
    assume "fault \<noteq> None"
    then show "files (step (UnlinkPurgeDone (rid c) fault) (locker_unlock (filename c) s)) = files s"
      unfolding C unfolding W(1) by (auto simp: fs_unlink_def)
  }
next
  assume tf: "take_first (is_op [KUnlinkPurge] r) (pending s) = Some (PUnlinkPurge c, rest')"
  note C = purge_completion[OF tf, of fault]
  show "step (UnlinkPurgeDone r fault) s
        = emit (APurged r)
            (locker_unlock (filename c)
              (s\<lparr>files := snd (fs_unlink fault (filename c) (files s)), pending := rest'\<rparr>))"
    by (rule C)
  show "count_list (trace (step (UnlinkPurgeDone r fault) s)) (APurged r)
        = count_list (trace s) (APurged r) + 1"
    unfolding C by simp
next
  assume idle: "ops_of r s = []"
  have "filter (is_op [KUnlinkPurge] r) (pending s) = []"
    using idle by (auto simp: ops_of_def filter_empty_conv is_op_def)
  from take_first_none[OF this] show "step (UnlinkPurgeDone r fault) s = s"
    by (simp add: step.simps deliver_def)
qed

text \<open>
  C8 as stated fails: when the unlink fails, \<open>purge\<close> calls \<open>done()\<close> all the same and the
  file is still at the canonical path.
\<close>

theorem purge_leaves_file_when_unlink_fails:
  "trace (run [CallPurge ex_petra ex_url, UnlinkPurgeDone 0 (Some ''EACCES'')]
            (init\<lparr>files := [ex_file \<mapsto> ex_stats]\<rparr>))
     = [AProceed 0, AUnlock ex_file, APurged 0] \<and>
   files (run [CallPurge ex_petra ex_url, UnlinkPurgeDone 0 (Some ''EACCES'')]
            (init\<lparr>files := [ex_file \<mapsto> ex_stats]\<rparr>)) ex_file
     = Some ex_stats"
  by code_simp

text \<open>
  Two purges of the same URL in a row both call \<open>done\<close>; and a purge that is called
  while a fetch of the same URL holds the lock calls \<open>done\<close> once, after the fetch has
  failed and released the lock.
\<close>

lemma purge_twice:
  "trace (run [CallPurge ex_petra ex_url, UnlinkPurgeDone 0 None,
               CallPurge ex_petra ex_url, UnlinkPurgeDone 1 None]
            (init\<lparr>files := [ex_file \<mapsto> ex_stats]\<rparr>))
     = [AProceed 0, AUnlock ex_file, APurged 0, AProceed 1, AUnlock ex_file, APurged 1]"
  by code_simp

lemma purge_behind_fetch:
  "filter (\<lambda>a. a = APurged 1 \<or> a = AUnlock ex_file \<or> a = AProceed 1)
     (trace (run [CallFetch ex_petra ex_url, CallPurge ex_petra ex_url, StatDone 0 None,
                  MkdirDone 0 None, GetError 0 None ''boom'', UnlinkPartDone 0 None,
                  UnlinkPurgeDone 1 None] init))
     = [AUnlock ex_file, AProceed 1, AUnlock ex_file, APurged 1]"
  by code_simp

theorem purge_calls_done_once_witness:
  "trace (run [CallPurge ex_petra ex_url, UnlinkPurgeDone 0 None]
            (init\<lparr>files := [ex_file \<mapsto> ex_stats]\<rparr>))
     = [AProceed 0, AUnlock ex_file, APurged 0] \<and>
   files (run [CallPurge ex_petra ex_url, UnlinkPurgeDone 0 None]
            (init\<lparr>files := [ex_file \<mapsto> ex_stats]\<rparr>)) ex_file = None \<and>
   files (run [CallPurge ex_petra ex_url, UnlinkPurgeDone 0 (Some ''EACCES'')]
            (init\<lparr>files := [ex_file \<mapsto> ex_stats]\<rparr>)) = [ex_file \<mapsto> ex_stats] \<and>
   lockedFiles (step (CallPurge ex_petra ex_url) (ex_state (PGet (ex_ctx 0)) Map.empty)) ex_file
     = Some \<lparr>lastUpdated = 0,
             onRelease = [FetchProceed (ex_ctx 1),
                          PurgeProceed \<lparr>rid = 2, inst = ex_petra, url = ex_url\<rparr>]\<rparr> \<and>
   snd (unlock 7 ex_file
          (locker_calls [Unlock 5 ex_file]
             [ex_file \<mapsto> \<lparr>lastUpdated = 0,
                              onRelease = [FetchProceed (ex_ctx 1), PurgeProceed (ex_ctx 2)]\<rparr>]))
     = Some (PurgeProceed (ex_ctx 2)) \<and>
   trace (step (UnlinkPurgeDone 1 None) (locker_unlock ex_file ex_queued))
     = [AUnlock ex_file, AProceed 1, AUnlock ex_file, AProceed 2, APurged 1] \<and>
   lockedFiles (step (UnlinkPurgeDone 1 None) (locker_unlock ex_file ex_queued)) ex_file
     = Some \<lparr>lastUpdated = 100, onRelease = []\<rparr> \<and>
   files (step (UnlinkPurgeDone 1 None) (locker_unlock ex_file ex_queued)) ex_file = None \<and>
   count_list (trace (step (UnlinkPurgeDone 0 (Some ''EPERM''))
                        (ex_state (PUnlinkPurge (ex_ctx 0)) Map.empty))) (APurged 0) = 1 \<and>
   step (UnlinkPurgeDone 0 None) init = init"
proof -
  let ?s = "init\<lparr>files := [ex_file \<mapsto> ex_stats]\<rparr>"
  let ?h = "ex_state (PGet (ex_ctx 0)) Map.empty"
  let ?e = "\<lparr>lastUpdated = 0, onRelease = [FetchProceed (ex_ctx 1)]\<rparr>"
  have n: "next_rid ?s = 0" by (simp add: init_def)
  have h1: "lockedFiles ?s (filename_of ex_petra ex_url) = None \<and> ops_of (next_rid ?s) ?s = []"
    by (simp add: init_def ops_of_def)
  have h2: "lockedFiles ?h (filename_of ex_petra ex_url) = Some ?e"
    by (simp add: ex_state_def ex_filename_of)
  note T1 = purge_calls_done_once[where s = ?s and this = ex_petra and u = ex_url
      and fault = None, THEN conjunct1, THEN mp, OF h1, unfolded n]
  note T2 = purge_calls_done_once[where s = ?s and this = ex_petra and u = ex_url
      and fault = "Some ''EACCES''", THEN conjunct1, THEN mp, OF h1, unfolded n]
  note T3 = purge_calls_done_once[where s = ?h and this = ex_petra and u = ex_url
      and e = ?e, THEN conjunct2, THEN conjunct1, THEN mp, OF h2]
  let ?t = "[ex_file \<mapsto> \<lparr>lastUpdated = 0,
                              onRelease = [FetchProceed (ex_ctx 1), PurgeProceed (ex_ctx 2)]\<rparr>]"
  let ?e4 = "\<lparr>lastUpdated = 0, onRelease = [FetchProceed (ex_ctx 1), PurgeProceed (ex_ctx 2)]\<rparr>"
  have h4: "?t ex_file = Some ?e4 \<and>
            onRelease ?e4 = [FetchProceed (ex_ctx 1)] @ PurgeProceed (ex_ctx 2) # [] \<and>
            length [5::int] = length [FetchProceed (ex_ctx 1)]"
    by simp
  note T4 = purge_calls_done_once[where t = ?t and f = ex_file and e = ?e4
      and ws = "[FetchProceed (ex_ctx 1)]" and c = "ex_ctx 2" and rest = "[]" and ns = "[5]"
      and now = 7,
      THEN conjunct2, THEN conjunct2, THEN conjunct1, THEN mp, OF h4]
  let ?e5 = "\<lparr>lastUpdated = 0, onRelease = [PurgeProceed (ex_ctx 1), FetchProceed (ex_ctx 2)]\<rparr>"
  have h5: "lockedFiles ex_queued (filename (ex_ctx 1)) = Some ?e5 \<and>
            onRelease ?e5 = PurgeProceed (ex_ctx 1) # [FetchProceed (ex_ctx 2)] \<and>
            ops_of (rid (ex_ctx 1)) ex_queued = []"
    by (simp add: ex_queued_def ex_filename ops_of_def)
  note T5 = purge_calls_done_once[where s = ex_queued and c = "ex_ctx 1" and e = ?e5
      and ws = "[FetchProceed (ex_ctx 2)]" and fault = None,
      THEN conjunct2, THEN conjunct2, THEN conjunct2, THEN conjunct1, THEN mp, OF h5,
      THEN conjunct2]
  let ?p = "ex_state (PUnlinkPurge (ex_ctx 0)) Map.empty"
  have h6: "take_first (is_op [KUnlinkPurge] 0) (pending ?p) = Some (PUnlinkPurge (ex_ctx 0), [])"
    by (simp add: is_op_def)
  note T6 = purge_calls_done_once[where s = ?p and c = "ex_ctx 0" and r = 0 and rest' = "[]"
      and fault = "Some ''EPERM''",
      THEN conjunct2, THEN conjunct2, THEN conjunct2, THEN conjunct2, THEN conjunct1, THEN mp,
      OF h6, THEN conjunct2]
  have h7: "ops_of 0 init = []" by (simp add: ops_of_def init_def)
  note T7 = purge_calls_done_once[where s = init and r = 0 and fault = None,
      THEN conjunct2, THEN conjunct2, THEN conjunct2, THEN conjunct2, THEN conjunct2, THEN mp,
      OF h7]
  have t0: "trace ?s = []" "files ?s = [ex_file \<mapsto> ex_stats]" by (simp_all add: init_def)
  have nh: "next_rid ?h = 2" by (simp add: ex_state_def)
  have q: "trace ex_queued = []" "clock ex_queued = 100" "files ex_queued = [ex_file \<mapsto> ex_stats]"
    by (simp_all add: ex_queued_def)
  from T1 T2 T3 T4 T5 T6 T7 show ?thesis
    by (simp add: ex_filename_of ex_filename t0 nh q proceed_ctx_def)
qed
section \<open>Order of lock release and callback in fetch\<close>

text \<open>
  C10. On a filesystem hit and on a successful upstream fetch, \<open>fetch\<close> first releases
  the lock of the cache file and then calls the caller's \<open>done\<close>: the state in which
  \<open>done\<close> is called is the one that \<open>locker.unlock\<close> returned. On an upstream failure,
  whatever else of the call is still in flight, it calls \<open>done\<close> with the error first
  and releases the lock in the state that follows. Releasing the lock removes the entry
  of the file from the lock table when nobody waits; otherwise it hands the entry to
  the first waiter, whose \<open>proceed\<close> is called and starts its first operation, so that
  on a failure the first waiter proceeds only after the failing caller's callback has
  returned.
\<close>

theorem fetch_unlock_order:
  "(take_first (is_op [KStat] r) (pending s) = Some (PStat c, rest) \<and>
    fs_stat fault (filename c) (files s) = Inr st \<and>
    isFile st \<and> 0 < fsize st \<and> clock s < mtime st \<longrightarrow>
      step (StatDone r fault) s
        = emit (ADone r (Success (filename c) (DateAt (atime st)) (DateAt (mtime st))))
            (locker_unlock (filename c)
              (emit (ADebug (''Filesystem hit '' @ filename c)) (s\<lparr>pending := rest\<rparr>))) \<and>
      trace (step (StatDone r fault) s)
        = trace s @ [ADebug (''Filesystem hit '' @ filename c), AUnlock (filename c)]
            @ woken (filename c) s
            @ [ADone r (Success (filename c) (DateAt (atime st)) (DateAt (mtime st)))]) \<and>
   (take_first (is_op [KUtimes] r) (pending s) = Some (PUtimes c a m, rest) \<and>
    fs_utimes fault (filename c) a m (files s) = (None, fs) \<longrightarrow>
      step (UtimesDone r fault) s
        = emit (ADone r (Success (filename c) a m))
            (locker_unlock (filename c)
              (emit (ADebug (''Upstream OK '' @ url c)) (s\<lparr>files := fs, pending := rest\<rparr>))) \<and>
      trace (step (UtimesDone r fault) s)
        = trace s @ [ADebug (''Upstream OK '' @ url c), AUnlock (filename c)]
            @ woken (filename c) s
            @ [ADone r (Success (filename c) a m)]) \<and>
   (take_first (is_op [KUnlinkPart] r) (pending s) = Some (PUnlinkPart c err, rest) \<and>
    err' = err\<lparr>message := ''Upstream '' @ url c @ '' failed: '' @ message err\<rparr> \<longrightarrow>
      step (UnlinkPartDone r fault) s
        = locker_unlock (filename c)
            (emit (ADone r (Failure err'))
              (emit (ADebug (message err'))
                (s\<lparr>files := snd (fs_unlink fault (partialContentFilename c) (files s)),
                   pending := rest\<rparr>))) \<and>
      trace (step (UnlinkPartDone r fault) s)
        = trace s @ [ADebug (message err'), ADone r (Failure err'), AUnlock (filename c)]
            @ woken (filename c) s) \<and>
   lockedFiles (locker_unlock key s)
     = (lockedFiles s)(key :=
         (case lockedFiles s key of
            None \<Rightarrow> None
          | Some e \<Rightarrow>
              (case onRelease e of
                 [] \<Rightarrow> None
               | w # ws \<Rightarrow> Some \<lparr>lastUpdated = clock s, onRelease = ws\<rparr>))) \<and>
   trace (locker_unlock key s)
     = trace s @ [AUnlock key]
         @ (case next_waiter key s of None \<Rightarrow> [] | Some w \<Rightarrow> [AProceed (rid (proceed_ctx w))]) \<and>
   pending (locker_unlock key s)
     = pending s @ (case next_waiter key s of None \<Rightarrow> [] | Some w \<Rightarrow> [first_op w])"
proof (intro conjI impI)
  assume h: "take_first (is_op [KStat] r) (pending s) = Some (PStat c, rest) \<and>
    fs_stat fault (filename c) (files s) = Inr st \<and>
    isFile st \<and> 0 < fsize st \<and> clock s < mtime st"
  then have tf: "take_first (is_op [KStat] r) (pending s) = Some (PStat c, rest)" by simp
  from take_first_holds[OF tf] have r: "rid c = r" by (simp add: is_op_def)
  have "step (StatDone r fault) s = on_stat c fault (s\<lparr>pending := rest\<rparr>)"
    by (simp add: step.simps deliver_take[OF tf])
  also have "\<dots> = fetch_probe_cb c (Some (DateAt (atime st), DateAt (mtime st))) (s\<lparr>pending := rest\<rparr>)"
    using h by (intro on_stat_hit) simp_all
  finally have eq: "step (StatDone r fault) s
      = fetch_probe_cb c (Some (DateAt (atime st), DateAt (mtime st))) (s\<lparr>pending := rest\<rparr>)" .
  show "step (StatDone r fault) s
        = emit (ADone r (Success (filename c) (DateAt (atime st)) (DateAt (mtime st))))
            (locker_unlock (filename c)
              (emit (ADebug (''Filesystem hit '' @ filename c)) (s\<lparr>pending := rest\<rparr>)))"
    unfolding eq by (simp add: fetch_probe_cb_def r)
  show "trace (step (StatDone r fault) s)
        = trace s @ [ADebug (''Filesystem hit '' @ filename c), AUnlock (filename c)]
            @ woken (filename c) s
            @ [ADone r (Success (filename c) (DateAt (atime st)) (DateAt (mtime st)))]"
    unfolding eq by (simp add: fetch_probe_cb_fields r)
next
  assume h: "take_first (is_op [KUtimes] r) (pending s) = Some (PUtimes c a m, rest) \<and>
    fs_utimes fault (filename c) a m (files s) = (None, fs)"
  then have tf: "take_first (is_op [KUtimes] r) (pending s) = Some (PUtimes c a m, rest)"
    and ut: "fs_utimes fault (filename c) a m (files s) = (None, fs)" by simp_all
  from take_first_holds[OF tf] have r: "rid c = r" by (simp add: is_op_def)
  have "step (UtimesDone r fault) s = on_utimes c a m fault (s\<lparr>pending := rest\<rparr>)"
    by (simp add: step.simps deliver_take[OF tf])
  also have "\<dots> = fetch_upstream_cb c (Inr (a, m)) (s\<lparr>files := fs, pending := rest\<rparr>)"
    using ut by (simp add: on_utimes_def)
  finally have eq: "step (UtimesDone r fault) s
      = fetch_upstream_cb c (Inr (a, m)) (s\<lparr>files := fs, pending := rest\<rparr>)" .
  show "step (UtimesDone r fault) s
        = emit (ADone r (Success (filename c) a m))
            (locker_unlock (filename c)
              (emit (ADebug (''Upstream OK '' @ url c)) (s\<lparr>files := fs, pending := rest\<rparr>)))"
    unfolding eq by (simp add: fetch_upstream_cb_def r)
  show "trace (step (UtimesDone r fault) s)
        = trace s @ [ADebug (''Upstream OK '' @ url c), AUnlock (filename c)]
            @ woken (filename c) s
            @ [ADone r (Success (filename c) a m)]"
    unfolding eq by (simp add: fetch_upstream_cb_fields r)
next
  assume h: "take_first (is_op [KUnlinkPart] r) (pending s) = Some (PUnlinkPart c err, rest) \<and>
    err' = err\<lparr>message := ''Upstream '' @ url c @ '' failed: '' @ message err\<rparr>"
  then have tf: "take_first (is_op [KUnlinkPart] r) (pending s) = Some (PUnlinkPart c err, rest)"
    and e: "err' = err\<lparr>message := ''Upstream '' @ url c @ '' failed: '' @ message err\<rparr>"
    by simp_all
  from take_first_holds[OF tf] have r: "rid c = r" by (simp add: is_op_def)
  have "step (UnlinkPartDone r fault) s = on_unlink_part c err fault (s\<lparr>pending := rest\<rparr>)"
    by (simp add: step.simps deliver_take[OF tf])
  also have "\<dots> = fetch_upstream_cb c (Inl err')
      (s\<lparr>files := snd (fs_unlink fault (partialContentFilename c) (files s)), pending := rest\<rparr>)"
    by (simp add: on_unlink_part_def e split: prod.splits)
  finally have eq: "step (UnlinkPartDone r fault) s = fetch_upstream_cb c (Inl err')
      (s\<lparr>files := snd (fs_unlink fault (partialContentFilename c) (files s)), pending := rest\<rparr>)" .
  show "step (UnlinkPartDone r fault) s
        = locker_unlock (filename c)
            (emit (ADone r (Failure err'))
              (emit (ADebug (message err'))
                (s\<lparr>files := snd (fs_unlink fault (partialContentFilename c) (files s)),
                   pending := rest\<rparr>)))"
    unfolding eq by (simp add: fetch_upstream_cb_def r)
  show "trace (step (UnlinkPartDone r fault) s)
        = trace s @ [ADebug (message err'), ADone r (Failure err'), AUnlock (filename c)]
            @ woken (filename c) s"
    unfolding eq by (simp add: fetch_upstream_cb_fields r)
next
  show "lockedFiles (locker_unlock key s)
     = (lockedFiles s)(key :=
         (case lockedFiles s key of
            None \<Rightarrow> None
          | Some e \<Rightarrow>
              (case onRelease e of
                 [] \<Rightarrow> None
               | w # ws \<Rightarrow> Some \<lparr>lastUpdated = clock s, onRelease = ws\<rparr>)))"
    by (rule locker_unlock_table)
  show "trace (locker_unlock key s)
     = trace s @ [AUnlock key]
         @ (case next_waiter key s of None \<Rightarrow> [] | Some w \<Rightarrow> [AProceed (rid (proceed_ctx w))])"
    by (simp add: woken_def)
  show "pending (locker_unlock key s)
     = pending s @ (case next_waiter key s of None \<Rightarrow> [] | Some w \<Rightarrow> [first_op w])"
    by (simp add: started_def)
qed

theorem fetch_unlock_order_witness:
  "trace (step (StatDone 0 None) (ex_state (PStat (ex_ctx 0)) [ex_file \<mapsto> ex_stats]))
     = [ADebug (''Filesystem hit '' @ ex_file), AUnlock ex_file, AProceed 1,
        ADone 0 (Success ex_file (DateAt 50) (DateAt 10050))] \<and>
   trace (step (UtimesDone 0 None)
            (ex_state (PUtimes (ex_ctx 0) (DateAt 100) (DateAt 10100)) [ex_file \<mapsto> ex_stats]))
     = [ADebug (''Upstream OK '' @ ex_url), AUnlock ex_file, AProceed 1,
        ADone 0 (Success ex_file (DateAt 100) (DateAt 10100))] \<and>
   trace (step (UnlinkPartDone 0 None)
            ((ex_state (PAborted (ex_ctx 0) JUndefined) Map.empty)
               \<lparr>pending := [PAborted (ex_ctx 0) JUndefined,
                             PUnlinkPart (ex_ctx 0) (errorWithCode ''response timeout of 100ms'' 504)]\<rparr>))
     = [ADebug (''Upstream '' @ ex_url @ '' failed: response timeout of 100ms''),
        ADone 0 (Failure \<lparr>message = ''Upstream '' @ ex_url @ '' failed: response timeout of 100ms'',
                          code = NumCode 504\<rparr>),
        AUnlock ex_file, AProceed 1] \<and>
   lockedFiles (locker_unlock ex_file (ex_state (PGet (ex_ctx 0)) Map.empty)) ex_file
     = Some \<lparr>lastUpdated = 100, onRelease = []\<rparr> \<and>
   pending (locker_unlock ex_file (ex_state (PGet (ex_ctx 0)) Map.empty))
     = [PGet (ex_ctx 0), PStat (ex_ctx 1)]"
proof (intro conjI)
  let ?s = "ex_state (PStat (ex_ctx 0)) [ex_file \<mapsto> ex_stats]"
  have h: "take_first (is_op [KStat] 0) (pending ?s) = Some (PStat (ex_ctx 0), []) \<and>
           fs_stat None (filename (ex_ctx 0)) (files ?s) = Inr ex_stats \<and>
           isFile ex_stats \<and> 0 < fsize ex_stats \<and> clock ?s < mtime ex_stats"
    by (simp add: is_op_def fs_stat_def ex_filename ex_stats_def)
  from fetch_unlock_order[where r = 0 and s = ?s and c = "ex_ctx 0" and rest = "[]"
      and fault = None and st = ex_stats, THEN conjunct1, THEN mp, OF h, THEN conjunct2]
  show "trace (step (StatDone 0 None) ?s)
     = [ADebug (''Filesystem hit '' @ ex_file), AUnlock ex_file, AProceed 1,
        ADone 0 (Success ex_file (DateAt 50) (DateAt 10050))]"
    by (simp add: ex_filename ex_woken ex_stats_def)
next
  let ?s = "ex_state (PUtimes (ex_ctx 0) (DateAt 100) (DateAt 10100)) [ex_file \<mapsto> ex_stats]"
  let ?fs = "[ex_file \<mapsto> ex_stats\<lparr>atime := 100, mtime := 10100\<rparr>]"
  have h: "take_first (is_op [KUtimes] 0) (pending ?s)
             = Some (PUtimes (ex_ctx 0) (DateAt 100) (DateAt 10100), []) \<and>
           fs_utimes None (filename (ex_ctx 0)) (DateAt 100) (DateAt 10100) (files ?s) = (None, ?fs)"
    by (simp add: is_op_def fs_utimes_def ex_filename stamp_def)
  from fetch_unlock_order[where r = 0 and s = ?s and c = "ex_ctx 0" and rest = "[]"
      and fault = None and a = "DateAt 100" and m = "DateAt 10100" and fs = ?fs,
      THEN conjunct2, THEN conjunct1, THEN mp, OF h, THEN conjunct2]
  show "trace (step (UtimesDone 0 None) ?s)
     = [ADebug (''Upstream OK '' @ ex_url), AUnlock ex_file, AProceed 1,
        ADone 0 (Success ex_file (DateAt 100) (DateAt 10100))]"
    by (simp add: ex_filename ex_woken)
next
  let ?e = "errorWithCode ''response timeout of 100ms'' 504"
  let ?e' = "?e\<lparr>message := ''Upstream '' @ url (ex_ctx 0) @ '' failed: '' @ message ?e\<rparr>"
  let ?s = "(ex_state (PAborted (ex_ctx 0) JUndefined) Map.empty)
               \<lparr>pending := [PAborted (ex_ctx 0) JUndefined, PUnlinkPart (ex_ctx 0) ?e]\<rparr>"
  have h: "take_first (is_op [KUnlinkPart] 0) (pending ?s)
             = Some (PUnlinkPart (ex_ctx 0) ?e, [PAborted (ex_ctx 0) JUndefined]) \<and> ?e' = ?e'"
    by (simp add: is_op_def)
  from fetch_unlock_order[where r = 0 and s = ?s and c = "ex_ctx 0"
      and rest = "[PAborted (ex_ctx 0) JUndefined]" and fault = None and err = ?e and err' = ?e',
      THEN conjunct2, THEN conjunct2, THEN conjunct1, THEN mp, OF h, THEN conjunct2]
  show "trace (step (UnlinkPartDone 0 None) ?s)
     = [ADebug (''Upstream '' @ ex_url @ '' failed: response timeout of 100ms''),
        ADone 0 (Failure \<lparr>message = ''Upstream '' @ ex_url @ '' failed: response timeout of 100ms'',
                          code = NumCode 504\<rparr>),
        AUnlock ex_file, AProceed 1]"
    by (simp add: ex_filename ex_woken errorWithCode_def)
next
  let ?s = "ex_state (PGet (ex_ctx 0)) Map.empty"
  note T = fetch_unlock_order[where key = ex_file and s = ?s, THEN conjunct2, THEN conjunct2,
      THEN conjunct2]
  from T[THEN conjunct1]
  show "lockedFiles (locker_unlock ex_file ?s) ex_file = Some \<lparr>lastUpdated = 100, onRelease = []\<rparr>"
    by (simp add: ex_state_def)
  from T[THEN conjunct2, THEN conjunct2]
  show "pending (locker_unlock ex_file ?s) = [PGet (ex_ctx 0), PStat (ex_ctx 1)]"
    by (simp add: ex_next_waiter first_op_def)
qed
section \<open>One callback per fetch\<close>

text \<open>
  C9 says that the callback of a \<open>fetch\<close> is called exactly once, also when the response
  timer fires and the aborted response then emits an error. The code does not do that:
  the timer's callback calls \<open>onError\<close> and leaves the \<open>error\<close> listener of the response
  attached, so the error that the abort raises calls \<open>onError\<close> again, and \<open>onError\<close> has
  no guard. In the first run below the response arrives, the timer fires, the aborted
  response emits \<open>aborted\<close>, and the two unlinks complete: \<open>done\<close> of call 0 is called
  twice. In the second run the aborted response emits \<open>end\<close> instead, the write stream
  closes, and the rename of the unlinked \<open>.part\<close> file fails: \<open>done\<close> is called twice as
  well.
\<close>

theorem timeout_then_error_calls_done_twice:
  "dones 0 (trace (run [CallFetch ex_petra ex_url, StatDone 0 None, MkdirDone 0 None,
        GetResponse 0 200 None JUndefined, TimerFires 0,
        ResError 0 \<lparr>message = ''aborted'', code = StrCode ''ECONNRESET''\<rparr>,
        UnlinkPartDone 0 None, UnlinkPartDone 0 None] init))
     = [Failure \<lparr>message = ''Upstream http://example.com/path failed: response timeout of 100ms'',
                  code = NumCode 504\<rparr>,
        Failure \<lparr>message = ''Upstream http://example.com/path failed: aborted'',
                  code = StrCode ''ECONNRESET''\<rparr>] \<and>
   dones 0 (trace (run [CallFetch ex_petra ex_url, StatDone 0 None, MkdirDone 0 None,
        GetResponse 0 200 None JUndefined, TimerFires 0, UnlinkPartDone 0 None,
        ResEnd 0, FileClose 0 5, RenameDone 0 None, UnlinkPartDone 0 None] init))
     = [Failure \<lparr>message = ''Upstream http://example.com/path failed: response timeout of 100ms'',
                  code = NumCode 504\<rparr>,
        Failure \<lparr>message = ''Upstream http://example.com/path failed: could not rename /tmp/petra/te/test-fingerprint.part as /tmp/petra/te/test-fingerprint ENOENT'',
                  code = NoCode\<rparr>]"
  by code_simp

end
